theory Spec2Isabelle
  imports Main "HOL-Library.AList"
begin

section \<open>The unified file system (src/unifiedFileSystem.ts)\<close>

subsection \<open>Entries, path keys and collaborator results\<close>

text \<open>
  \<^verbatim>\<open>UnifiedEntry = UnifiedFile | UnifiedDirectory\<close>: a tagged union whose two
  variants both carry a \<^verbatim>\<open>path\<close>; \<^verbatim>\<open>kind\<close> is the tag.
\<close>

datatype Kind = KindFile | KindDirectory

datatype UnifiedEntry = UnifiedFile (path: string) | UnifiedDirectory (path: string)

fun kind :: "UnifiedEntry \<Rightarrow> Kind" where
  "kind (UnifiedFile _) = KindFile"
| "kind (UnifiedDirectory _) = KindDirectory"

text \<open>\<^verbatim>\<open>PathHashDigest\<close> is a branded string.\<close>

type_synonym PathHashDigest = string

text \<open>
  \<^verbatim>\<open>GlobArguments\<close>, in the order includePatterns, excludePatterns, absolute,
  currentWorkingDirectory.
\<close>

datatype GlobArguments = GlobArguments "string list" "string list" bool string

text \<open>
  A promise of a collaborator either rejects with a reason (\<open>Inl\<close>) or resolves to a
  value (\<open>Inr\<close>). A method of the class fails either because a collaborator rejected
  or with its own \<^verbatim>\<open>Error('This file has already been deleted')\<close>.
\<close>

datatype error = AlreadyDeleted | Rejected string

text \<open>
  The declaration of \<^verbatim>\<open>ExternalFileCommand\<close> (\<^verbatim>\<open>./externalFileCommands.js\<close>) is not
  among the sources; its two variants are the object literals that
  \<^verbatim>\<open>buildExternalFileCommands\<close> pushes: \<^verbatim>\<open>{kind: 'deleteFile', path}\<close> and
  \<^verbatim>\<open>{kind: 'upsertFile', path, data}\<close>.
\<close>

datatype ExternalFileCommand =
    ExternalDeleteFile string
  | ExternalUpsertFile string string

fun externalPath :: "ExternalFileCommand \<Rightarrow> string" where
  "externalPath (ExternalDeleteFile p) = p"
| "externalPath (ExternalUpsertFile p _) = p"

subsection \<open>The directory membership index\<close>

text \<open>
  Modelled from the spec: the class \<^verbatim>\<open>LeftRightHashSetManager\<close>
  (\<^verbatim>\<open>./leftRightHashSetManager.js\<close>) is not among the sources. The spec describes
  it as a relation of parent key to child keys that supports "children of" queries, only
  ever grows, and is read in the order of first insertion. It is modelled as the
  duplicate-free list of (left, right) pairs in insertion order; the class is constructed
  on an empty set.
\<close>

type_synonym LeftRightHashSetManager = "(PathHashDigest \<times> PathHashDigest) list"

text \<open>
  Modelled from the spec: \<^verbatim>\<open>upsert\<close> of the missing class. It records the child under
  the parent; a pair already recorded stays where it is.
\<close>

definition upsert ::
  "PathHashDigest \<Rightarrow> PathHashDigest \<Rightarrow> LeftRightHashSetManager \<Rightarrow> LeftRightHashSetManager" where
  "upsert leftHash rightHash m =
     (if (leftHash, rightHash) \<in> set m then m else m @ [(leftHash, rightHash)])"

text \<open>
  Modelled from the spec: \<^verbatim>\<open>getRightHashesByLeftHash\<close> of the missing class, the
  "children of" query, in the order of first insertion.
\<close>

definition getRightHashesByLeftHash ::
  "PathHashDigest \<Rightarrow> LeftRightHashSetManager \<Rightarrow> PathHashDigest list" where
  "getRightHashesByLeftHash leftHash m = map snd (filter (\<lambda>lr. fst lr = leftHash) m)"

subsection \<open>The state of one instance\<close>

text \<open>
  The calls made to the backing collaborators are recorded in a ghost field
  \<open>backingCalls\<close>, so that "the collaborator is not consulted" can be stated.
\<close>

datatype BackingCall =
    GlobCall GlobArguments
  | GetUnifiedEntryCall string
  | ReadDirectoryCall string
  | ReadFileCall string

text \<open>
  The private fields of the class. \<open>directoryFiles\<close>, \<open>entries\<close> and \<open>changes\<close> are
  \<^verbatim>\<open>__directoryFiles\<close>, \<^verbatim>\<open>__entries\<close> and \<^verbatim>\<open>__changes\<close>. The constructor's
  parameter properties \<^verbatim>\<open>__glob\<close>, \<^verbatim>\<open>__getUnifiedEntry\<close>, \<^verbatim>\<open>__readDirectory\<close>,
  \<^verbatim>\<open>__readFile\<close> and \<^verbatim>\<open>__buildPathHashDigest\<close> are the fields \<open>glob\<close>,
  \<open>getUnifiedEntry\<close>, \<open>backingReadDirectory\<close>, \<open>backingReadFile\<close> and
  \<open>buildPathHashDigest\<close>: each holds what the collaborator answers at present, and the
  backing store changing over time is a change of these four fields
  (\<open>BackingStoreChanges\<close> below).

  \<^verbatim>\<open>__entries\<close> is a \<^verbatim>\<open>Map\<close> that is only looked up, never iterated: a map.
  \<^verbatim>\<open>__changes\<close> is a \<^verbatim>\<open>Map\<close> iterated by \<^verbatim>\<open>forEach\<close> in insertion order, where
  \<^verbatim>\<open>set\<close> on a present key keeps the key's position: an association list updated with
  \<^const>\<open>AList.update\<close>. Its values are \<^verbatim>\<open>string | null\<close>: \<open>None\<close> is \<^verbatim>\<open>null\<close>.
\<close>

record UnifiedFileSystem =
  directoryFiles :: LeftRightHashSetManager
  entries :: "PathHashDigest \<rightharpoonup> UnifiedEntry"
  changes :: "(PathHashDigest \<times> string option) list"
  glob :: "GlobArguments \<Rightarrow> string + string list"
  getUnifiedEntry :: "string \<Rightarrow> string + UnifiedEntry"
  backingReadDirectory :: "string \<Rightarrow> string + UnifiedEntry list"
  backingReadFile :: "string \<Rightarrow> string + string"
  buildPathHashDigest :: "string \<Rightarrow> PathHashDigest"
  backingCalls :: "BackingCall list"

text \<open>The constructor: the three containers start empty.\<close>

definition new_UnifiedFileSystem ::
  "(GlobArguments \<Rightarrow> string + string list) \<Rightarrow> (string \<Rightarrow> string + UnifiedEntry) \<Rightarrow>
   (string \<Rightarrow> string + UnifiedEntry list) \<Rightarrow> (string \<Rightarrow> string + string) \<Rightarrow>
   (string \<Rightarrow> PathHashDigest) \<Rightarrow> UnifiedFileSystem" where
  "new_UnifiedFileSystem g ge rd rf h =
     \<lparr>directoryFiles = [], entries = Map.empty, changes = [],
      glob = g, getUnifiedEntry = ge, backingReadDirectory = rd, backingReadFile = rf,
      buildPathHashDigest = h, backingCalls = []\<rparr>"

definition called :: "BackingCall \<Rightarrow> UnifiedFileSystem \<Rightarrow> UnifiedFileSystem" where
  "called c s = s\<lparr>backingCalls := backingCalls s @ [c]\<rparr>"

subsection \<open>The methods\<close>

text \<open>
  A method takes the state and returns its result with the new state. The asynchronous
  ones return a sum: \<open>Inl\<close> is the rejection of the promise, \<open>Inr\<close> its value, and
  \<^verbatim>\<open>null\<close> is \<open>None\<close>. The calls are run one at a time, as the interpreter awaits each
  of them; a collaborator's answer is read from the state at the moment of the call.
\<close>

definition upsertUnifiedDirectory ::
  "string \<Rightarrow> UnifiedFileSystem \<Rightarrow> (error + UnifiedEntry option) \<times> UnifiedFileSystem" where
  "upsertUnifiedDirectory directoryPath s =
     (let directoryPathHashDigest = buildPathHashDigest s directoryPath in
      if entries s directoryPathHashDigest = None then
        (let s' = called (GetUnifiedEntryCall directoryPath) s in
         case getUnifiedEntry s directoryPath of
           Inl reason \<Rightarrow> (Inl (Rejected reason), s')
         | Inr unifiedEntry \<Rightarrow>
             if kind unifiedEntry \<noteq> KindDirectory then (Inr None, s')
             else (Inr (Some unifiedEntry),
                   s'\<lparr>entries := (entries s')(directoryPathHashDigest \<mapsto> unifiedEntry)\<rparr>))
      else (Inr (entries s directoryPathHashDigest), s))"

definition upsertUnifiedFile ::
  "string \<Rightarrow> UnifiedFileSystem \<Rightarrow> (error + UnifiedEntry option) \<times> UnifiedFileSystem" where
  "upsertUnifiedFile filePath s =
     (let filePathHashDigest = buildPathHashDigest s filePath in
      if entries s filePathHashDigest = None then
        (let s' = called (GetUnifiedEntryCall filePath) s in
         case getUnifiedEntry s filePath of
           Inl reason \<Rightarrow> (Inl (Rejected reason), s')
         | Inr unifiedEntry \<Rightarrow>
             if kind unifiedEntry \<noteq> KindFile then (Inr None, s')
             else (Inr (Some unifiedEntry),
                   s'\<lparr>entries := (entries s')(filePathHashDigest \<mapsto> unifiedEntry)\<rparr>))
      else (Inr (entries s filePathHashDigest), s))"

definition upsertUnifiedEntry ::
  "string \<Rightarrow> UnifiedFileSystem \<Rightarrow> (error + UnifiedEntry option) \<times> UnifiedFileSystem" where
  "upsertUnifiedEntry p s =
     (case upsertUnifiedDirectory p s of
        (Inl e, s') \<Rightarrow> (Inl e, s')
      | (Inr (Some unifiedDirectory), s') \<Rightarrow> (Inr (Some unifiedDirectory), s')
      | (Inr None, s') \<Rightarrow> upsertUnifiedFile p s')"

text \<open>
  The body of the first \<^verbatim>\<open>forEach\<close> of \<^verbatim>\<open>readDirectory\<close>: one \<^verbatim>\<open>if\<close> for each kind,
  both doing the same.
\<close>

definition recordChild :: "PathHashDigest \<Rightarrow> UnifiedEntry \<Rightarrow> UnifiedFileSystem \<Rightarrow> UnifiedFileSystem" where
  "recordChild directoryPathHashDigest unifiedEntry s =
     (let pathHashDigest = buildPathHashDigest s (path unifiedEntry) in
      case kind unifiedEntry of
        KindDirectory \<Rightarrow>
          s\<lparr>directoryFiles := upsert directoryPathHashDigest pathHashDigest (directoryFiles s),
            entries := (entries s)(pathHashDigest \<mapsto> unifiedEntry)\<rparr>
      | KindFile \<Rightarrow>
          s\<lparr>directoryFiles := upsert directoryPathHashDigest pathHashDigest (directoryFiles s),
            entries := (entries s)(pathHashDigest \<mapsto> unifiedEntry)\<rparr>)"

text \<open>
  The second \<^verbatim>\<open>forEach\<close>: the paths of the cached entries of the recorded children; a
  child key without a cached entry is skipped.
\<close>

definition childPaths :: "PathHashDigest \<Rightarrow> UnifiedFileSystem \<Rightarrow> string list" where
  "childPaths directoryPathHashDigest s =
     concat (map (\<lambda>pathHashDigest.
                    case entries s pathHashDigest of
                      None \<Rightarrow> []
                    | Some unifiedEntry \<Rightarrow> [path unifiedEntry])
                 (getRightHashesByLeftHash directoryPathHashDigest (directoryFiles s)))"

definition readDirectory ::
  "string \<Rightarrow> UnifiedFileSystem \<Rightarrow> (error + string list) \<times> UnifiedFileSystem" where
  "readDirectory directoryPath s =
     (let directoryPathHashDigest = buildPathHashDigest s directoryPath;
          s' = called (ReadDirectoryCall directoryPath) s in
      case backingReadDirectory s directoryPath of
        Inl reason \<Rightarrow> (Inl (Rejected reason), s')
      | Inr unifiedEntries \<Rightarrow>
          (let s'' = fold (recordChild directoryPathHashDigest) unifiedEntries s' in
           (Inr (childPaths directoryPathHashDigest s''), s'')))"

definition readFile :: "string \<Rightarrow> UnifiedFileSystem \<Rightarrow> (error + string) \<times> UnifiedFileSystem" where
  "readFile filePath s =
     (let pathHashDigest = buildPathHashDigest s filePath;
          upsertedData = map_of (changes s) pathHashDigest in
      case upsertedData of
        None \<Rightarrow>
          (case backingReadFile s filePath of
             Inl reason \<Rightarrow> (Inr '''', called (ReadFileCall filePath) s)
           | Inr data \<Rightarrow> (Inr data, called (ReadFileCall filePath) s))
      | Some None \<Rightarrow> (Inl AlreadyDeleted, s)
      | Some (Some data) \<Rightarrow> (Inr data, s))"

definition isDirectory :: "string \<Rightarrow> UnifiedFileSystem \<Rightarrow> bool" where
  "isDirectory directoryPath s =
     (let directoryPathHashDigest = buildPathHashDigest s directoryPath in
      case entries s directoryPathHashDigest of
        None \<Rightarrow> False
      | Some unifiedEntry \<Rightarrow> kind unifiedEntry = KindDirectory)"

definition exists :: "string \<Rightarrow> UnifiedFileSystem \<Rightarrow> bool" where
  "exists directoryPath s =
     (let directoryPathHashDigest = buildPathHashDigest s directoryPath in
      entries s directoryPathHashDigest \<noteq> None)"

definition recordFile :: "string \<Rightarrow> UnifiedFileSystem \<Rightarrow> UnifiedFileSystem" where
  "recordFile p s =
     (let unifiedFile = UnifiedFile p;
          pathHashDigest = buildPathHashDigest s p in
      s\<lparr>entries := (entries s)(pathHashDigest \<mapsto> unifiedFile)\<rparr>)"

definition getFilePaths ::
  "string \<Rightarrow> string list \<Rightarrow> string list \<Rightarrow> UnifiedFileSystem \<Rightarrow>
   (error + string list) \<times> UnifiedFileSystem" where
  "getFilePaths directoryPath includePatterns excludePatterns s =
     (let globArguments = GlobArguments includePatterns excludePatterns True directoryPath;
          s' = called (GlobCall globArguments) s in
      case glob s globArguments of
        Inl reason \<Rightarrow> (Inl (Rejected reason), s')
      | Inr paths \<Rightarrow> (Inr paths, fold recordFile paths s'))"

definition deleteFile :: "string \<Rightarrow> UnifiedFileSystem \<Rightarrow> UnifiedFileSystem" where
  "deleteFile filePath s =
     (let pathHashDigest = buildPathHashDigest s filePath;
          unifiedFile = UnifiedFile filePath in
      s\<lparr>entries := (entries s)(pathHashDigest \<mapsto> unifiedFile),
        changes := AList.update pathHashDigest None (changes s)\<rparr>)"

definition upsertData :: "string \<Rightarrow> string \<Rightarrow> UnifiedFileSystem \<Rightarrow> UnifiedFileSystem" where
  "upsertData filePath data s =
     (let pathHashDigest = buildPathHashDigest s filePath;
          unifiedFile = UnifiedFile filePath in
      s\<lparr>entries := (entries s)(pathHashDigest \<mapsto> unifiedFile),
        changes := AList.update pathHashDigest (Some data) (changes s)\<rparr>)"

text \<open>
  The body of the \<^verbatim>\<open>forEach\<close> of \<^verbatim>\<open>buildExternalFileCommands\<close>: two \<^verbatim>\<open>if\<close>s, each
  pushing at most one command.
\<close>

definition externalCommandsOf ::
  "UnifiedFileSystem \<Rightarrow> PathHashDigest \<times> string option \<Rightarrow> ExternalFileCommand list" where
  "externalCommandsOf s change =
     (let hashDigest = fst change; data = snd change; entry = entries s hashDigest in
      (case (entry, data) of
         (Some e, None) \<Rightarrow> [ExternalDeleteFile (path e)]
       | _ \<Rightarrow> []) @
      (case (entry, data) of
         (Some e, Some d) \<Rightarrow> [ExternalUpsertFile (path e) d]
       | _ \<Rightarrow> []))"

definition buildExternalFileCommands :: "UnifiedFileSystem \<Rightarrow> ExternalFileCommand list" where
  "buildExternalFileCommands s = concat (map (externalCommandsOf s) (changes s))"

subsection \<open>Sequences of calls on one instance\<close>

text \<open>
  What a client can do to an instance between two moments of a run: call one of its
  methods, or let time pass while the backing store changes, after which the four
  backing collaborators answer differently (the path key deriver is a pure function and
  stays). \<open>isDirectory\<close>, \<open>exists\<close> and \<open>buildExternalFileCommands\<close> only read the state.
\<close>

datatype Operation =
    OpUpsertUnifiedEntry string
  | OpUpsertUnifiedDirectory string
  | OpUpsertUnifiedFile string
  | OpReadDirectory string
  | OpReadFile string
  | OpGetFilePaths string "string list" "string list"
  | OpDeleteFile string
  | OpUpsertData string string
  | BackingStoreChanges
      "GlobArguments \<Rightarrow> string + string list"
      "string \<Rightarrow> string + UnifiedEntry"
      "string \<Rightarrow> string + UnifiedEntry list"
      "string \<Rightarrow> string + string"

fun perform :: "Operation \<Rightarrow> UnifiedFileSystem \<Rightarrow> UnifiedFileSystem" where
  "perform (OpUpsertUnifiedEntry p) s = snd (upsertUnifiedEntry p s)"
| "perform (OpUpsertUnifiedDirectory p) s = snd (upsertUnifiedDirectory p s)"
| "perform (OpUpsertUnifiedFile p) s = snd (upsertUnifiedFile p s)"
| "perform (OpReadDirectory p) s = snd (readDirectory p s)"
| "perform (OpReadFile p) s = snd (readFile p s)"
| "perform (OpGetFilePaths p incl excl) s = snd (getFilePaths p incl excl s)"
| "perform (OpDeleteFile p) s = deleteFile p s"
| "perform (OpUpsertData p d) s = upsertData p d s"
| "perform (BackingStoreChanges g ge rd rf) s =
     s\<lparr>glob := g, getUnifiedEntry := ge, backingReadDirectory := rd, backingReadFile := rf\<rparr>"

definition run :: "Operation list \<Rightarrow> UnifiedFileSystem \<Rightarrow> UnifiedFileSystem" where
  "run ops s = fold perform ops s"

text \<open>
  The paths an operation is about to record in the entry cache: the argument of an
  upsert, of \<open>deleteFile\<close> and of \<open>upsertData\<close>, every child the backing store lists,
  every path the glob returns.
\<close>

fun observed :: "Operation \<Rightarrow> UnifiedFileSystem \<Rightarrow> string list" where
  "observed (OpUpsertUnifiedEntry p) s = [p]"
| "observed (OpUpsertUnifiedDirectory p) s = [p]"
| "observed (OpUpsertUnifiedFile p) s = [p]"
| "observed (OpReadDirectory p) s =
     (case backingReadDirectory s p of Inl _ \<Rightarrow> [] | Inr unifiedEntries \<Rightarrow> map path unifiedEntries)"
| "observed (OpReadFile p) s = []"
| "observed (OpGetFilePaths p incl excl) s =
     (case glob s (GlobArguments incl excl True p) of Inl _ \<Rightarrow> [] | Inr paths \<Rightarrow> paths)"
| "observed (OpDeleteFile p) s = [p]"
| "observed (OpUpsertData p d) s = [p]"
| "observed (BackingStoreChanges g ge rd rf) s = []"

text \<open>
  No operation of the sequence, started in \<open>s\<close>, observes a path with the key of \<open>p\<close>
  (two paths are the same entity when their keys are equal).
\<close>

fun neverObserved :: "string \<Rightarrow> Operation list \<Rightarrow> UnifiedFileSystem \<Rightarrow> bool" where
  "neverObserved p [] s = True"
| "neverObserved p (operation # ops) s =
     (\<not> list_ex (\<lambda>q. buildPathHashDigest s q = buildPathHashDigest s p) (observed operation s)
      \<and> neverObserved p ops (perform operation s))"

text \<open>
  The directories with the key of \<open>p\<close> that a listing of the sequence has the backing
  store report.
\<close>

fun listedAsDirectory :: "string \<Rightarrow> Operation \<Rightarrow> UnifiedFileSystem \<Rightarrow> bool" where
  "listedAsDirectory p (OpReadDirectory d) s =
     (case backingReadDirectory s d of
        Inl _ \<Rightarrow> False
      | Inr unifiedEntries \<Rightarrow>
          list_ex (\<lambda>e. kind e = KindDirectory
                       \<and> buildPathHashDigest s (path e) = buildPathHashDigest s p) unifiedEntries)"
| "listedAsDirectory p _ s = False"

fun neverListedAsDirectory :: "string \<Rightarrow> Operation list \<Rightarrow> UnifiedFileSystem \<Rightarrow> bool" where
  "neverListedAsDirectory p [] s = True"
| "neverListedAsDirectory p (operation # ops) s =
     (\<not> listedAsDirectory p operation s \<and> neverListedAsDirectory p ops (perform operation s))"

section \<open>The command interpreter\<close>

subsection \<open>Commands\<close>

text \<open>\<^verbatim>\<open>Options = Readonly<Record<string, string | undefined>>\<close>.\<close>

type_synonym Options = "string \<rightharpoonup> string"

datatype DirectoryCommand =
    HandleDirectoryCommand string Options
  | HandleFileCommand string Options

text \<open>\<^verbatim>\<open>MoveFileCommand\<close> and \<^verbatim>\<open>CopyFileCommand\<close> carry oldPath, newPath, options.\<close>

datatype FileCommand =
    UpsertFileCommand string Options
  | DeleteFileCommand string
  | MoveFileCommand string string Options
  | CopyFileCommand string string Options

text \<open>\<^verbatim>\<open>UpsertDataCommand\<close> carries data, then path.\<close>

datatype DataCommand =
    UpsertDataCommand string string
  | NoopCommand

datatype Command =
    DirectoryCommand DirectoryCommand
  | FileCommand FileCommand
  | DataCommand DataCommand

subsection \<open>The facade object and the API\<close>

text \<open>
  The interpreter is given \<^verbatim>\<open>api.facadeFileSystem\<close>, of the class \<^verbatim>\<open>FacadeFileSystem\<close>
  (\<^verbatim>\<open>./files\<close>), which is not among the sources: the object is a parameter of the
  interpreter, the record of the methods called on it, each a transformer of the facade's
  state \<open>'f\<close> that may fail. \<open>unifiedFacade\<close> below is the object made of the methods of
  \<^verbatim>\<open>UnifiedFileSystem\<close>.
\<close>

record 'f FacadeFileSystem =
  ffs_upsertFacadeEntry :: "string \<Rightarrow> 'f \<Rightarrow> (error + UnifiedEntry option) \<times> 'f"
  ffs_upsertFacadeDirectory :: "string \<Rightarrow> 'f \<Rightarrow> (error + UnifiedEntry option) \<times> 'f"
  ffs_upsertFacadeFile :: "string \<Rightarrow> 'f \<Rightarrow> (error + UnifiedEntry option) \<times> 'f"
  ffs_readDirectory :: "string \<Rightarrow> 'f \<Rightarrow> (error + string list) \<times> 'f"
  ffs_readFile :: "string \<Rightarrow> 'f \<Rightarrow> (error + string) \<times> 'f"
  ffs_isDirectory :: "string \<Rightarrow> 'f \<Rightarrow> bool"
  ffs_exists :: "string \<Rightarrow> 'f \<Rightarrow> bool"
  ffs_getFilePaths :: "string \<Rightarrow> string list \<Rightarrow> string list \<Rightarrow> 'f \<Rightarrow> (error + string list) \<times> 'f"
  ffs_deleteFile :: "string \<Rightarrow> 'f \<Rightarrow> (error + unit) \<times> 'f"
  ffs_upsertData :: "string \<Rightarrow> string \<Rightarrow> 'f \<Rightarrow> (error + unit) \<times> 'f"
  ffs_buildExternalFileCommands :: "'f \<Rightarrow> ExternalFileCommand list"

definition unifiedFacade :: "UnifiedFileSystem FacadeFileSystem" where
  "unifiedFacade =
     \<lparr>ffs_upsertFacadeEntry = upsertUnifiedEntry,
      ffs_upsertFacadeDirectory = upsertUnifiedDirectory,
      ffs_upsertFacadeFile = upsertUnifiedFile,
      ffs_readDirectory = readDirectory,
      ffs_readFile = readFile,
      ffs_isDirectory = isDirectory,
      ffs_exists = exists,
      ffs_getFilePaths = getFilePaths,
      ffs_deleteFile = (\<lambda>p s. (Inr (), deleteFile p s)),
      ffs_upsertData = (\<lambda>p d s. (Inr (), upsertData p d s)),
      ffs_buildExternalFileCommands = buildExternalFileCommands\<rparr>"

text \<open>
  \<^verbatim>\<open>DirectoryAPI\<close>: the four closures over the facade that \<^verbatim>\<open>buildApi\<close> makes.
  \<^verbatim>\<open>fileAPI\<close> is a copy of \<^verbatim>\<open>directoryAPI\<close>. The data API (path utilities and
  \<^verbatim>\<open>getDependencies\<close>) has no access to the file system and is only passed on by the
  interpreter: a value of a type parameter \<open>'d\<close>.
\<close>

record 'f DirectoryAPI =
  api_readDirectory :: "string \<Rightarrow> 'f \<Rightarrow> (error + string list) \<times> 'f"
  api_isDirectory :: "string \<Rightarrow> 'f \<Rightarrow> bool"
  api_exists :: "string \<Rightarrow> 'f \<Rightarrow> bool"
  api_readFile :: "string \<Rightarrow> 'f \<Rightarrow> (error + string) \<times> 'f"

type_synonym 'f FileAPI = "'f DirectoryAPI"

record ('f, 'd) API =
  facadeFileSystem :: "'f FacadeFileSystem"
  directoryAPI :: "'f DirectoryAPI"
  fileAPI :: "'f FileAPI"
  dataAPI :: 'd

definition buildApi :: "'f FacadeFileSystem \<Rightarrow> 'd \<Rightarrow> ('f, 'd) API" where
  "buildApi facade dataApi =
     (let directoryApi =
            \<lparr>api_readDirectory = (\<lambda>p. ffs_readDirectory facade p),
             api_isDirectory = (\<lambda>p. ffs_isDirectory facade p),
             api_exists = (\<lambda>p. ffs_exists facade p),
             api_readFile = (\<lambda>p. ffs_readFile facade p)\<rparr>
      in \<lparr>facadeFileSystem = facade, directoryAPI = directoryApi, fileAPI = directoryApi,
          dataAPI = dataApi\<rparr>)"

text \<open>
  A hook is code of the repomod's author. It is given an API and may call it any number
  of times: it is a transformer of the facade's state that may fail, which covers every
  use of the API. Each hook is optional.
\<close>

record ('f, 'd) Repomod =
  includePatterns :: "string list option"
  excludePatterns :: "string list option"
  handleDirectory ::
    "('f DirectoryAPI \<Rightarrow> string \<Rightarrow> Options \<Rightarrow> 'f \<Rightarrow> (error + DirectoryCommand list) \<times> 'f) option"
  handleFile ::
    "('f FileAPI \<Rightarrow> string \<Rightarrow> Options \<Rightarrow> 'f \<Rightarrow> (error + FileCommand list) \<times> 'f) option"
  handleData ::
    "('d \<Rightarrow> string \<Rightarrow> string \<Rightarrow> Options \<Rightarrow> 'f \<Rightarrow> (error + DataCommand) \<times> 'f) option"

definition defaultHandleDirectory ::
  "'f DirectoryAPI \<Rightarrow> string \<Rightarrow> Options \<Rightarrow> 'f \<Rightarrow> (error + DirectoryCommand list) \<times> 'f" where
  "defaultHandleDirectory api directoryPath options f =
     (case api_readDirectory api directoryPath f of
        (Inl e, f') \<Rightarrow> (Inl e, f')
      | (Inr paths, f') \<Rightarrow>
          (Inr (map (\<lambda>p. if api_isDirectory api p f'
                          then HandleDirectoryCommand p options
                          else HandleFileCommand p options) paths), f'))"

definition defaultHandleFile ::
  "'f FileAPI \<Rightarrow> string \<Rightarrow> Options \<Rightarrow> 'f \<Rightarrow> (error + FileCommand list) \<times> 'f" where
  "defaultHandleFile api p options f = (Inr [UpsertFileCommand p options], f)"

definition defaultHandleData ::
  "'d \<Rightarrow> string \<Rightarrow> string \<Rightarrow> Options \<Rightarrow> 'f \<Rightarrow> (error + DataCommand) \<times> 'f" where
  "defaultHandleData api p data options f = (Inr NoopCommand, f)"

subsection \<open>Executions with a trace\<close>

text \<open>
  What \<^verbatim>\<open>handleCommand\<close> does, in order, is recorded in a ghost trace: each command it
  is called with, each call of a method of the facade and each call of a hook, with what
  the call returned.
\<close>

datatype Event =
    Dispatched Command
  | GetFilePaths string "string list" "string list" "error + string list"
  | UpsertFacadeDirectory string "error + UnifiedEntry option"
  | UpsertFacadeFile string "error + UnifiedEntry option"
  | FacadeReadFile string "error + string"
  | FacadeDeleteFile string "error + unit"
  | FacadeUpsertData string string "error + unit"
  | HandleDirectoryHook string Options "error + DirectoryCommand list"
  | HandleFileHook string Options "error + FileCommand list"
  | HandleDataHook string string Options "error + DataCommand"

text \<open>
  An execution starts from the facade's state and the trace so far. It returns a value
  or fails (an exception propagates), with the state and trace reached; or it does not
  return within the recursion depth allowed (\<open>None\<close>).
\<close>

type_synonym ('a, 'f) Exec = "'f \<times> Event list \<Rightarrow> ((error + 'a) \<times> ('f \<times> Event list)) option"

definition returned :: "'a \<Rightarrow> ('a, 'f) Exec" where
  "returned a st = Some (Inr a, st)"

definition andThen :: "('a, 'f) Exec \<Rightarrow> ('a \<Rightarrow> ('b, 'f) Exec) \<Rightarrow> ('b, 'f) Exec" where
  "andThen m k st =
     (case m st of
        None \<Rightarrow> None
      | Some (Inl e, st') \<Rightarrow> Some (Inl e, st')
      | Some (Inr a, st') \<Rightarrow> k a st')"

definition noted :: "Event \<Rightarrow> (unit, 'f) Exec" where
  "noted ev st = Some (Inr (), (fst st, snd st @ [ev]))"

text \<open>An awaited call of the facade or of a hook, noted with its result.\<close>

definition awaited :: "((error + 'a) \<Rightarrow> Event) \<Rightarrow> ('f \<Rightarrow> (error + 'a) \<times> 'f) \<Rightarrow> ('a, 'f) Exec" where
  "awaited ev call st =
     (case call (fst st) of (r, f') \<Rightarrow> Some (r, (f', snd st @ [ev r])))"

text \<open>\<^verbatim>\<open>for (const x of xs) { await body(x) }\<close>\<close>

primrec forEach :: "('x \<Rightarrow> (unit, 'f) Exec) \<Rightarrow> 'x list \<Rightarrow> (unit, 'f) Exec" where
  "forEach body [] = returned ()"
| "forEach body (x # xs) = andThen (body x) (\<lambda>_. forEach body xs)"

subsection \<open>handleCommand and executeRepomod\<close>

text \<open>
  \<^verbatim>\<open>handleCommand\<close> calls itself on every command a hook returns, and a hook may
  return commands for ever: the first argument bounds the depth of the recursion, and with
  depth exhausted the call has not returned (\<open>None\<close>). The \<^verbatim>\<open>if\<close>s on
  \<^verbatim>\<open>command.kind\<close> exclude each other: a case distinction; no \<^verbatim>\<open>if\<close> tests for
  \<^verbatim>\<open>moveFile\<close>, \<^verbatim>\<open>copyFile\<close> or \<^verbatim>\<open>noop\<close>.
\<close>

primrec handleCommand ::
  "nat \<Rightarrow> ('f, 'd) API \<Rightarrow> ('f, 'd) Repomod \<Rightarrow> Command \<Rightarrow> (unit, 'f) Exec" where
  "handleCommand 0 api repomod command = (\<lambda>st. None)"
| "handleCommand (Suc depth) api repomod command =
     andThen (noted (Dispatched command)) (\<lambda>_.
       case command of
         DirectoryCommand (HandleDirectoryCommand p options) \<Rightarrow>
           andThen
             (case includePatterns repomod of
                None \<Rightarrow> returned ()
              | Some patterns \<Rightarrow>
                  (let excluded = (case excludePatterns repomod of None \<Rightarrow> [] | Some ex \<Rightarrow> ex) in
                   andThen
                     (awaited (GetFilePaths p patterns excluded)
                        (ffs_getFilePaths (facadeFileSystem api) p patterns excluded))
                     (\<lambda>paths.
                        forEach (\<lambda>q. handleCommand depth api repomod
                                        (DirectoryCommand (HandleFileCommand q options))) paths)))
             (\<lambda>_.
                andThen
                  (awaited (UpsertFacadeDirectory p)
                     (ffs_upsertFacadeDirectory (facadeFileSystem api) p))
                  (\<lambda>facadeEntry.
                     case facadeEntry of
                       None \<Rightarrow> returned ()
                     | Some _ \<Rightarrow>
                         andThen
                           (awaited (HandleDirectoryHook p options)
                              ((case handleDirectory repomod of
                                  None \<Rightarrow> defaultHandleDirectory
                                | Some hook \<Rightarrow> hook) (directoryAPI api) p options))
                           (\<lambda>commands.
                              forEach (\<lambda>c. handleCommand depth api repomod (DirectoryCommand c))
                                commands)))
       | DirectoryCommand (HandleFileCommand p options) \<Rightarrow>
           andThen
             (awaited (UpsertFacadeFile p) (ffs_upsertFacadeFile (facadeFileSystem api) p))
             (\<lambda>facadeEntry.
                case facadeEntry of
                  None \<Rightarrow> returned ()
                | Some _ \<Rightarrow>
                    andThen
                      (awaited (HandleFileHook p options)
                         ((case handleFile repomod of
                             None \<Rightarrow> defaultHandleFile
                           | Some hook \<Rightarrow> hook) (fileAPI api) p options))
                      (\<lambda>commands.
                         forEach (\<lambda>c. handleCommand depth api repomod (FileCommand c)) commands))
       | FileCommand (UpsertFileCommand p options) \<Rightarrow>
           andThen
             (awaited (FacadeReadFile p) (ffs_readFile (facadeFileSystem api) p))
             (\<lambda>data.
                andThen
                  (awaited (HandleDataHook p data options)
                     ((case handleData repomod of
                         None \<Rightarrow> defaultHandleData
                       | Some hook \<Rightarrow> hook) (dataAPI api) p data options))
                  (\<lambda>dataCommand. handleCommand depth api repomod (DataCommand dataCommand)))
       | FileCommand (DeleteFileCommand p) \<Rightarrow>
           awaited (FacadeDeleteFile p) (ffs_deleteFile (facadeFileSystem api) p)
       | FileCommand (MoveFileCommand oldPath newPath options) \<Rightarrow> returned ()
       | FileCommand (CopyFileCommand oldPath newPath options) \<Rightarrow> returned ()
       | DataCommand (UpsertDataCommand data p) \<Rightarrow>
           awaited (FacadeUpsertData p data) (ffs_upsertData (facadeFileSystem api) p data)
       | DataCommand NoopCommand \<Rightarrow> returned ())"

definition executeRepomod ::
  "nat \<Rightarrow> ('f, 'd) API \<Rightarrow> ('f, 'd) Repomod \<Rightarrow> string \<Rightarrow> Options \<Rightarrow>
   (ExternalFileCommand list, 'f) Exec" where
  "executeRepomod depth api repomod p options =
     andThen (\<lambda>st. case ffs_upsertFacadeEntry (facadeFileSystem api) p (fst st) of
                     (r, f') \<Rightarrow> Some (r, (f', snd st)))
       (\<lambda>facadeEntry.
          case facadeEntry of
            None \<Rightarrow> returned []
          | Some entry \<Rightarrow>
              andThen
                (handleCommand depth api repomod
                   (DirectoryCommand
                      (if kind entry = KindDirectory
                       then HandleDirectoryCommand p options
                       else HandleFileCommand p options)))
                (\<lambda>_ st. Some (Inr (ffs_buildExternalFileCommands (facadeFileSystem api) (fst st)),
                              st)))"

section \<open>Auxiliary notions for the proofs\<close>

subsection \<open>Invariants of the unified file system\<close>

text \<open>
  The entry that a sequence of writes leaves under key \<open>k\<close>, when every entry is written
  under the key of its own path: the last one of the list with that key.
\<close>

fun latest ::
  "(string \<Rightarrow> PathHashDigest) \<Rightarrow> PathHashDigest \<Rightarrow> UnifiedEntry list \<Rightarrow> UnifiedEntry option" where
  "latest h k [] = None"
| "latest h k (e # es) =
     (case latest h k es of
        Some e' \<Rightarrow> Some e'
      | None \<Rightarrow> if h (path e) = k then Some e else None)"

text \<open>The key holds an entry, and it is the key of that entry's path.\<close>

definition wellKeyed :: "UnifiedFileSystem \<Rightarrow> PathHashDigest \<Rightarrow> bool" where
  "wellKeyed s k =
     (case entries s k of None \<Rightarrow> False | Some e \<Rightarrow> buildPathHashDigest s (path e) = k)"

text \<open>Every child recorded in the membership index is well keyed.\<close>

definition indexInv :: "UnifiedFileSystem \<Rightarrow> bool" where
  "indexInv s = list_all (\<lambda>lr. wellKeyed s (snd lr)) (directoryFiles s)"

text \<open>The change ledger has one entry per key at most, and every key of it is well keyed.\<close>

definition changesInv :: "UnifiedFileSystem \<Rightarrow> bool" where
  "changesInv s =
     (distinct (map fst (changes s)) \<and> list_all (\<lambda>kv. wellKeyed s (fst kv)) (changes s))"

subsection \<open>Reading traces\<close>

text \<open>
  The events that only the handling of a \<^verbatim>\<open>handleDirectory\<close> command itself produces.
\<close>

fun directoryLevel :: "Event \<Rightarrow> bool" where
  "directoryLevel (Dispatched (DirectoryCommand (HandleDirectoryCommand p options))) = True"
| "directoryLevel (GetFilePaths p incl excl r) = True"
| "directoryLevel (UpsertFacadeDirectory p r) = True"
| "directoryLevel (HandleDirectoryHook p options r) = True"
| "directoryLevel _ = False"

fun isHandleFileDispatch :: "Event \<Rightarrow> bool" where
  "isHandleFileDispatch (Dispatched (DirectoryCommand (HandleFileCommand p options))) = True"
| "isHandleFileDispatch _ = False"

text \<open>One dispatch of a \<^verbatim>\<open>handleFile\<close> command per path, in the order of the paths.\<close>

definition handleFileDispatches :: "Options \<Rightarrow> string list \<Rightarrow> Event list" where
  "handleFileDispatches options paths =
     map (\<lambda>q. Dispatched (DirectoryCommand (HandleFileCommand q options))) paths"

definition quiet :: "Event \<Rightarrow> bool" where
  "quiet ev = (\<not> directoryLevel ev \<and> \<not> isHandleFileDispatch ev)"

text \<open>An execution that, when it returns or fails, has only appended events satisfying \<open>P\<close>.\<close>

definition emits :: "(Event \<Rightarrow> bool) \<Rightarrow> ('a, 'f) Exec \<Rightarrow> bool" where
  "emits P m =
     (\<forall>st r st'. m st = Some (r, st') \<longrightarrow> (\<exists>evs. snd st' = snd st @ evs \<and> list_all P evs))"

text \<open>An execution that returns or fails from every state: it never runs out of depth.\<close>

definition returns :: "('a, 'f) Exec \<Rightarrow> bool" where
  "returns m = (\<forall>st. m st \<noteq> None)"

text \<open>
  The rest of the \<^verbatim>\<open>handleDirectory\<close> branch of \<^verbatim>\<open>handleCommand\<close>, after
  \<^verbatim>\<open>upsertFacadeDirectory\<close> has returned an entry: the directory hook, then the
  commands it returned.
\<close>

definition directoryHookStep ::
  "nat \<Rightarrow> ('f, 'd) API \<Rightarrow> ('f, 'd) Repomod \<Rightarrow> string \<Rightarrow> Options \<Rightarrow> (unit, 'f) Exec" where
  "directoryHookStep depth api repomod p options =
     andThen
       (awaited (HandleDirectoryHook p options)
          ((case handleDirectory repomod of
              None \<Rightarrow> defaultHandleDirectory
            | Some hook \<Rightarrow> hook) (directoryAPI api) p options))
       (\<lambda>commands.
          forEach (\<lambda>c. handleCommand depth api repomod (DirectoryCommand c)) commands)"

subsection \<open>An example\<close>

text \<open>
  A backing store whose glob matches \<^verbatim>\<open>/d/a\<close>, that describes \<^verbatim>\<open>/d\<close> as a directory and
  every other path as a file, lists the files \<^verbatim>\<open>/d/a\<close> and \<^verbatim>\<open>/d/b\<close> under every
  directory and reads \<^verbatim>\<open>aaa\<close> from every file; the key of a path is the path.
\<close>

definition exampleFileSystem :: UnifiedFileSystem where
  "exampleFileSystem =
     new_UnifiedFileSystem
       (\<lambda>_. Inr [''/d/a''])
       (\<lambda>q. Inr (if q = ''/d'' then UnifiedDirectory q else UnifiedFile q))
       (\<lambda>_. Inr [UnifiedFile ''/d/a'', UnifiedFile ''/d/b''])
       (\<lambda>_. Inr ''aaa'')
       (\<lambda>q. q)"

definition exampleApi :: "(UnifiedFileSystem, unit) API" where
  "exampleApi = buildApi unifiedFacade ()"

text \<open>A repomod that declares include patterns and no hook.\<close>

definition exampleRepomod :: "(UnifiedFileSystem, unit) Repomod" where
  "exampleRepomod =
     \<lparr>includePatterns = Some [''**/*.html''], excludePatterns = None,
      handleDirectory = None, handleFile = None, handleData = None\<rparr>"

text \<open>The same store with a glob that matches \<^verbatim>\<open>/d/a\<close> and \<^verbatim>\<open>/d/b\<close>, in this order.\<close>

definition exampleMatches :: UnifiedFileSystem where
  "exampleMatches = exampleFileSystem\<lparr>glob := (\<lambda>_. Inr [''/d/a'', ''/d/b''])\<rparr>"

text \<open>
  The trace of \<^verbatim>\<open>handleDirectory\<close> on \<^verbatim>\<open>/e\<close>, which the store describes as a file.
\<close>

definition exampleTrace :: "Event list" where
  "exampleTrace =
     [Dispatched (DirectoryCommand (HandleDirectoryCommand ''/e'' Map.empty)),
      GetFilePaths ''/e'' [''**/*.html''] [] (Inr [''/d/a'', ''/d/b'']),
      Dispatched (DirectoryCommand (HandleFileCommand ''/d/a'' Map.empty)),
      UpsertFacadeFile ''/d/a'' (Inr (Some (UnifiedFile ''/d/a''))),
      HandleFileHook ''/d/a'' Map.empty (Inr [UpsertFileCommand ''/d/a'' Map.empty]),
      Dispatched (FileCommand (UpsertFileCommand ''/d/a'' Map.empty)),
      FacadeReadFile ''/d/a'' (Inr ''aaa''),
      HandleDataHook ''/d/a'' ''aaa'' Map.empty (Inr NoopCommand),
      Dispatched (DataCommand NoopCommand),
      Dispatched (DirectoryCommand (HandleFileCommand ''/d/b'' Map.empty)),
      UpsertFacadeFile ''/d/b'' (Inr (Some (UnifiedFile ''/d/b''))),
      HandleFileHook ''/d/b'' Map.empty (Inr [UpsertFileCommand ''/d/b'' Map.empty]),
      Dispatched (FileCommand (UpsertFileCommand ''/d/b'' Map.empty)),
      FacadeReadFile ''/d/b'' (Inr ''aaa''),
      HandleDataHook ''/d/b'' ''aaa'' Map.empty (Inr NoopCommand),
      Dispatched (DataCommand NoopCommand),
      UpsertFacadeDirectory ''/e'' (Inr None)]"

section \<open>Properties of the unified file system\<close>

lemmas method_defs =
  new_UnifiedFileSystem_def called_def upsertUnifiedDirectory_def upsertUnifiedFile_def
  upsertUnifiedEntry_def recordChild_def childPaths_def readDirectory_def readFile_def
  isDirectory_def exists_def recordFile_def getFilePaths_def deleteFile_def upsertData_def
  externalCommandsOf_def buildExternalFileCommands_def upsert_def getRightHashesByLeftHash_def
  run_def Let_def

subsection \<open>Upserts of a cached path\<close>

lemma upsertUnifiedDirectory_cached:
  "entries s (buildPathHashDigest s p) = Some e \<Longrightarrow> upsertUnifiedDirectory p s = (Inr (Some e), s)"
  by (simp add: upsertUnifiedDirectory_def)

lemma upsertUnifiedFile_cached:
  "entries s (buildPathHashDigest s p) = Some e \<Longrightarrow> upsertUnifiedFile p s = (Inr (Some e), s)"
  by (simp add: upsertUnifiedFile_def)

text \<open>
  C1. The claim: on a path cached as a file, \<open>upsertUnifiedDirectory\<close> returns null and
  leaves the cache as it is, and likewise \<open>upsertUnifiedFile\<close> on a path cached as a
  directory. The cache is indeed left as it is, but the kind is tested only on the branch
  that asks the backing store; on a cached path the cached entry is returned whatever its
  kind. Here \<open>p\<close> is cached as a file by \<open>upsertData\<close> and \<open>upsertUnifiedDirectory p\<close>
  returns that file entry; and \<open>p\<close> is cached as a directory by a first
  \<open>upsertUnifiedDirectory p\<close> on a store that describes every path as a directory, and
  \<open>upsertUnifiedFile p\<close> returns that directory entry.
\<close>

theorem upsert_of_cached_other_kind:
  "upsertUnifiedDirectory p (upsertData p x s) = (Inr (Some (UnifiedFile p)), upsertData p x s)
   \<and> upsertUnifiedFile p
         (snd (upsertUnifiedDirectory p
                 (new_UnifiedFileSystem g (\<lambda>q. Inr (UnifiedDirectory q)) rd rf h)))
       = (Inr (Some (UnifiedDirectory p)),
          snd (upsertUnifiedDirectory p
                 (new_UnifiedFileSystem g (\<lambda>q. Inr (UnifiedDirectory q)) rd rf h)))"
  by (simp add: upsertUnifiedDirectory_def upsertUnifiedFile_def upsertData_def
        new_UnifiedFileSystem_def called_def Let_def)

subsection \<open>Reading staged paths\<close>

text \<open>
  C2. Whatever the state before, \<open>readFile p\<close> right after \<open>deleteFile p\<close> fails with
  the "already deleted" error, and changes nothing.
\<close>

theorem deleteFile_then_readFile:
  "readFile p (deleteFile p s) = (Inl AlreadyDeleted, deleteFile p s)"
  by (simp add: readFile_def deleteFile_def Let_def update_conv')

text \<open>
  C3. Whatever the state before and whatever the backing store holds, \<open>readFile p\<close>
  right after \<open>upsertData p x\<close> returns \<open>x\<close>; the state is unchanged, in particular no
  call of a backing collaborator is added.
\<close>

theorem upsertData_then_readFile:
  "readFile p (upsertData p x s) = (Inr x, upsertData p x s)
   \<and> backingCalls (snd (readFile p (upsertData p x s))) = backingCalls s"
  by (simp add: readFile_def upsertData_def Let_def update_conv')

text \<open>
  C5. With nothing staged for the key of \<open>p\<close>, a rejection of the backing read is caught:
  \<open>readFile p\<close> returns the empty string, and the only effect is the call of the
  collaborator.
\<close>

theorem readFile_backing_failure:
  "map_of (changes s) (buildPathHashDigest s p) = None \<Longrightarrow> backingReadFile s p = Inl reason \<Longrightarrow>
   readFile p s = (Inr '''', called (ReadFileCall p) s)"
  by (simp add: readFile_def Let_def)

theorem readFile_backing_failure_witness:
  "readFile ''/a''
     (new_UnifiedFileSystem (\<lambda>_. Inr []) (\<lambda>_. Inl ''ENOENT'') (\<lambda>_. Inl ''ENOENT'')
        (\<lambda>_. Inl ''ENOENT'') (\<lambda>p. p))
    = (Inr '''',
       called (ReadFileCall ''/a'')
         (new_UnifiedFileSystem (\<lambda>_. Inr []) (\<lambda>_. Inl ''ENOENT'') (\<lambda>_. Inl ''ENOENT'')
            (\<lambda>_. Inl ''ENOENT'') (\<lambda>p. p)))"
  by (rule readFile_backing_failure [where reason = "''ENOENT''"])
     (simp_all add: new_UnifiedFileSystem_def)

subsection \<open>The effect of each method on the fields\<close>

lemma set_upsert: "set (upsert l r m) = insert (l, r) (set m)"
  by (auto simp: upsert_def)

lemma recordChild_fields:
  "entries (recordChild dk e s) = (entries s)(buildPathHashDigest s (path e) \<mapsto> e)"
  "directoryFiles (recordChild dk e s) = upsert dk (buildPathHashDigest s (path e)) (directoryFiles s)"
  "buildPathHashDigest (recordChild dk e s) = buildPathHashDigest s"
  "changes (recordChild dk e s) = changes s"
  "backingCalls (recordChild dk e s) = backingCalls s"
  "glob (recordChild dk e s) = glob s"
  "getUnifiedEntry (recordChild dk e s) = getUnifiedEntry s"
  "backingReadDirectory (recordChild dk e s) = backingReadDirectory s"
  "backingReadFile (recordChild dk e s) = backingReadFile s"
  by (cases e; simp add: recordChild_def Let_def)+

lemma recordFile_fields:
  "entries (recordFile p s) = (entries s)(buildPathHashDigest s p \<mapsto> UnifiedFile p)"
  "directoryFiles (recordFile p s) = directoryFiles s"
  "buildPathHashDigest (recordFile p s) = buildPathHashDigest s"
  "changes (recordFile p s) = changes s"
  "backingCalls (recordFile p s) = backingCalls s"
  "glob (recordFile p s) = glob s"
  "getUnifiedEntry (recordFile p s) = getUnifiedEntry s"
  "backingReadDirectory (recordFile p s) = backingReadDirectory s"
  "backingReadFile (recordFile p s) = backingReadFile s"
  by (simp_all add: recordFile_def Let_def)

lemma fold_recordChild_fields:
  "buildPathHashDigest (fold (recordChild dk) es s) = buildPathHashDigest s"
  "changes (fold (recordChild dk) es s) = changes s"
  "backingCalls (fold (recordChild dk) es s) = backingCalls s"
  "glob (fold (recordChild dk) es s) = glob s"
  "getUnifiedEntry (fold (recordChild dk) es s) = getUnifiedEntry s"
  "backingReadDirectory (fold (recordChild dk) es s) = backingReadDirectory s"
  "backingReadFile (fold (recordChild dk) es s) = backingReadFile s"
  by (induction es arbitrary: s; simp add: recordChild_fields)+

lemma fold_recordChild_entries:
  "entries (fold (recordChild dk) es s) k =
     (case latest (buildPathHashDigest s) k es of None \<Rightarrow> entries s k | Some e \<Rightarrow> Some e)"
  by (induction es arbitrary: s) (simp_all add: recordChild_fields split: option.splits)

lemma fold_recordChild_index:
  "set (directoryFiles (fold (recordChild dk) es s)) =
     set (directoryFiles s) \<union> (\<lambda>e. (dk, buildPathHashDigest s (path e))) ` set es"
  by (induction es arbitrary: s) (simp_all add: recordChild_fields set_upsert)

lemma latest_Some: "latest h k es = Some e \<Longrightarrow> e \<in> set es \<and> h (path e) = k"
  by (induction es) (auto split: option.splits if_splits)

lemma latest_None: "latest h k es = None \<Longrightarrow> e \<in> set es \<Longrightarrow> h (path e) \<noteq> k"
  by (induction es) (auto split: option.splits if_splits)

lemma fold_recordFile_fields:
  "buildPathHashDigest (fold recordFile ps s) = buildPathHashDigest s"
  "changes (fold recordFile ps s) = changes s"
  "directoryFiles (fold recordFile ps s) = directoryFiles s"
  "backingCalls (fold recordFile ps s) = backingCalls s"
  "glob (fold recordFile ps s) = glob s"
  "getUnifiedEntry (fold recordFile ps s) = getUnifiedEntry s"
  "backingReadDirectory (fold recordFile ps s) = backingReadDirectory s"
  "backingReadFile (fold recordFile ps s) = backingReadFile s"
  by (induction ps arbitrary: s; simp add: recordFile_fields)+

lemma fold_recordFile_entries:
  "entries (fold recordFile ps s) k =
     (case latest (buildPathHashDigest s) k (map UnifiedFile ps) of
        None \<Rightarrow> entries s k | Some e \<Rightarrow> Some e)"
  by (induction ps arbitrary: s) (simp_all add: recordFile_fields split: option.splits)

lemma called_fields:
  "entries (called c s) = entries s"
  "directoryFiles (called c s) = directoryFiles s"
  "buildPathHashDigest (called c s) = buildPathHashDigest s"
  "changes (called c s) = changes s"
  "glob (called c s) = glob s"
  "getUnifiedEntry (called c s) = getUnifiedEntry s"
  "backingReadDirectory (called c s) = backingReadDirectory s"
  "backingReadFile (called c s) = backingReadFile s"
  by (simp_all add: called_def)

lemma upsertUnifiedDirectory_frame:
  "buildPathHashDigest (snd (upsertUnifiedDirectory p s)) = buildPathHashDigest s"
  "changes (snd (upsertUnifiedDirectory p s)) = changes s"
  "directoryFiles (snd (upsertUnifiedDirectory p s)) = directoryFiles s"
  "getUnifiedEntry (snd (upsertUnifiedDirectory p s)) = getUnifiedEntry s"
  by (simp_all add: upsertUnifiedDirectory_def Let_def called_def split: sum.splits)

lemma upsertUnifiedFile_frame:
  "buildPathHashDigest (snd (upsertUnifiedFile p s)) = buildPathHashDigest s"
  "changes (snd (upsertUnifiedFile p s)) = changes s"
  "directoryFiles (snd (upsertUnifiedFile p s)) = directoryFiles s"
  "getUnifiedEntry (snd (upsertUnifiedFile p s)) = getUnifiedEntry s"
  by (simp_all add: upsertUnifiedFile_def Let_def called_def split: sum.splits)

lemma upsertUnifiedDirectory_keeps:
  "entries s k = Some e \<Longrightarrow> entries (snd (upsertUnifiedDirectory p s)) k = Some e"
  by (auto simp: upsertUnifiedDirectory_def Let_def called_def split: sum.splits)

lemma upsertUnifiedFile_keeps:
  "entries s k = Some e \<Longrightarrow> entries (snd (upsertUnifiedFile p s)) k = Some e"
  by (auto simp: upsertUnifiedFile_def Let_def called_def split: sum.splits)

lemma upsertUnifiedDirectory_adds:
  "entries (snd (upsertUnifiedDirectory p s)) k = Some e \<Longrightarrow>
   entries s k = Some e \<or> k = buildPathHashDigest s p"
  by (auto simp: upsertUnifiedDirectory_def Let_def called_def split: sum.splits if_splits)

lemma upsertUnifiedFile_adds:
  "entries (snd (upsertUnifiedFile p s)) k = Some e \<Longrightarrow>
   entries s k = Some e \<or> k = buildPathHashDigest s p"
  by (auto simp: upsertUnifiedFile_def Let_def called_def split: sum.splits if_splits)

lemma upsertUnifiedEntry_snd:
  "snd (upsertUnifiedEntry p s) = snd (upsertUnifiedDirectory p s)
   \<or> snd (upsertUnifiedEntry p s) = snd (upsertUnifiedFile p (snd (upsertUnifiedDirectory p s)))"
  by (simp add: upsertUnifiedEntry_def split: prod.splits sum.splits option.splits)

lemma upsertUnifiedEntry_frame:
  "buildPathHashDigest (snd (upsertUnifiedEntry p s)) = buildPathHashDigest s"
  "changes (snd (upsertUnifiedEntry p s)) = changes s"
  "directoryFiles (snd (upsertUnifiedEntry p s)) = directoryFiles s"
  using upsertUnifiedEntry_snd [of p s]
  by (auto simp: upsertUnifiedDirectory_frame upsertUnifiedFile_frame)

lemma upsertUnifiedEntry_keeps:
  "entries s k = Some e \<Longrightarrow> entries (snd (upsertUnifiedEntry p s)) k = Some e"
  using upsertUnifiedEntry_snd [of p s]
  by (auto simp: upsertUnifiedDirectory_keeps upsertUnifiedFile_keeps)

lemma upsertUnifiedEntry_adds:
  assumes "entries (snd (upsertUnifiedEntry p s)) k = Some e"
  shows "entries s k = Some e \<or> k = buildPathHashDigest s p"
  using upsertUnifiedEntry_snd [of p s]
proof
  assume "snd (upsertUnifiedEntry p s) = snd (upsertUnifiedDirectory p s)"
  with assms show ?thesis by (auto dest: upsertUnifiedDirectory_adds)
next
  assume "snd (upsertUnifiedEntry p s) = snd (upsertUnifiedFile p (snd (upsertUnifiedDirectory p s)))"
  with assms have "entries (snd (upsertUnifiedDirectory p s)) k = Some e
      \<or> k = buildPathHashDigest (snd (upsertUnifiedDirectory p s)) p"
    by (auto dest: upsertUnifiedFile_adds)
  then show ?thesis
    by (auto simp: upsertUnifiedDirectory_frame dest: upsertUnifiedDirectory_adds)
qed

lemma readDirectory_snd:
  "snd (readDirectory d s) =
     (case backingReadDirectory s d of
        Inl reason \<Rightarrow> called (ReadDirectoryCall d) s
      | Inr unifiedEntries \<Rightarrow>
          fold (recordChild (buildPathHashDigest s d)) unifiedEntries (called (ReadDirectoryCall d) s))"
  by (simp add: readDirectory_def Let_def split: sum.splits)

lemma getFilePaths_snd:
  "snd (getFilePaths d incl excl s) =
     (case glob s (GlobArguments incl excl True d) of
        Inl reason \<Rightarrow> called (GlobCall (GlobArguments incl excl True d)) s
      | Inr paths \<Rightarrow> fold recordFile paths (called (GlobCall (GlobArguments incl excl True d)) s))"
  by (simp add: getFilePaths_def Let_def split: sum.splits)

lemma readFile_snd:
  "snd (readFile p s) = s \<or> snd (readFile p s) = called (ReadFileCall p) s"
  by (simp add: readFile_def Let_def split: option.splits sum.splits)

lemma perform_digest: "buildPathHashDigest (perform operation s) = buildPathHashDigest s"
proof (cases operation)
  case (OpReadFile p)
  then show ?thesis using readFile_snd [of p s] by (auto simp: called_fields)
qed (simp_all add: upsertUnifiedEntry_frame upsertUnifiedDirectory_frame upsertUnifiedFile_frame
       readDirectory_snd getFilePaths_snd fold_recordChild_fields fold_recordFile_fields
       called_fields deleteFile_def upsertData_def Let_def split: sum.splits)

lemma run_digest: "buildPathHashDigest (run ops s) = buildPathHashDigest s"
  unfolding run_def by (induction ops arbitrary: s) (simp_all add: perform_digest)

lemma perform_forward:
  assumes "entries s (buildPathHashDigest s p) = Some e"
  shows "\<exists>e'. entries (perform operation s) (buildPathHashDigest s p) = Some e'
           \<and> (e' = e \<or> (buildPathHashDigest s (path e') = buildPathHashDigest s p
                        \<and> (kind e' = KindDirectory \<longrightarrow> listedAsDirectory p operation s)))"
proof (cases operation)
  case (OpUpsertUnifiedEntry q)
  with assms show ?thesis by (simp add: upsertUnifiedEntry_keeps)
next
  case (OpUpsertUnifiedDirectory q)
  with assms show ?thesis by (simp add: upsertUnifiedDirectory_keeps)
next
  case (OpUpsertUnifiedFile q)
  with assms show ?thesis by (simp add: upsertUnifiedFile_keeps)
next
  case (OpReadDirectory d)
  show ?thesis
  proof (cases "backingReadDirectory s d")
    case (Inl reason)
    with assms OpReadDirectory show ?thesis by (simp add: readDirectory_snd called_fields)
  next
    case (Inr es)
    show ?thesis
    proof (cases "latest (buildPathHashDigest s) (buildPathHashDigest s p) es")
      case None
      with assms OpReadDirectory Inr show ?thesis
        by (simp add: readDirectory_snd fold_recordChild_entries called_fields)
    next
      case (Some e')
      then have "e' \<in> set es" "buildPathHashDigest s (path e') = buildPathHashDigest s p"
        by (auto dest: latest_Some)
      then have "kind e' = KindDirectory \<longrightarrow> listedAsDirectory p operation s"
        using OpReadDirectory Inr by (auto simp: list_ex_iff)
      with Some OpReadDirectory Inr \<open>buildPathHashDigest s (path e') = buildPathHashDigest s p\<close>
      show ?thesis
        by (simp add: readDirectory_snd fold_recordChild_entries called_fields)
    qed
  qed
next
  case (OpReadFile q)
  with assms show ?thesis using readFile_snd [of q s] by (auto simp: called_fields)
next
  case (OpGetFilePaths d incl excl)
  show ?thesis
  proof (cases "glob s (GlobArguments incl excl True d)")
    case (Inl reason)
    with assms OpGetFilePaths show ?thesis by (simp add: getFilePaths_snd called_fields)
  next
    case (Inr ps)
    show ?thesis
    proof (cases "latest (buildPathHashDigest s) (buildPathHashDigest s p) (map UnifiedFile ps)")
      case None
      with assms OpGetFilePaths Inr show ?thesis
        by (simp add: getFilePaths_snd fold_recordFile_entries called_fields)
    next
      case (Some e')
      then have "e' \<in> set (map UnifiedFile ps)"
          "buildPathHashDigest s (path e') = buildPathHashDigest s p"
        by (auto dest: latest_Some)
      then have "kind e' \<noteq> KindDirectory" by auto
      with Some OpGetFilePaths Inr \<open>buildPathHashDigest s (path e') = buildPathHashDigest s p\<close>
      show ?thesis
        by (simp add: getFilePaths_snd fold_recordFile_entries called_fields)
    qed
  qed
next
  case (OpDeleteFile q)
  with assms show ?thesis by (auto simp: deleteFile_def Let_def)
next
  case (OpUpsertData q d)
  with assms show ?thesis by (auto simp: upsertData_def Let_def)
next
  case (BackingStoreChanges g ge rd rf)
  with assms show ?thesis by simp
qed

lemma perform_backward:
  assumes "entries (perform operation s) k = Some e'"
  shows "entries s k = Some e' \<or> list_ex (\<lambda>q. buildPathHashDigest s q = k) (observed operation s)"
proof (cases operation)
  case (OpUpsertUnifiedEntry q)
  with assms show ?thesis by (auto dest: upsertUnifiedEntry_adds)
next
  case (OpUpsertUnifiedDirectory q)
  with assms show ?thesis by (auto dest: upsertUnifiedDirectory_adds)
next
  case (OpUpsertUnifiedFile q)
  with assms show ?thesis by (auto dest: upsertUnifiedFile_adds)
next
  case (OpReadDirectory d)
  with assms show ?thesis
    by (auto simp: readDirectory_snd fold_recordChild_entries called_fields list_ex_iff
          split: sum.splits option.splits dest: latest_Some)
next
  case (OpReadFile q)
  with assms show ?thesis using readFile_snd [of q s] by (auto simp: called_fields)
next
  case (OpGetFilePaths d incl excl)
  show ?thesis
  proof (cases "glob s (GlobArguments incl excl True d)")
    case (Inl reason)
    with assms OpGetFilePaths show ?thesis by (simp add: getFilePaths_snd called_fields)
  next
    case (Inr ps)
    show ?thesis
    proof (cases "latest (buildPathHashDigest s) k (map UnifiedFile ps)")
      case None
      with assms OpGetFilePaths Inr show ?thesis
        by (simp add: getFilePaths_snd fold_recordFile_entries called_fields)
    next
      case (Some e'')
      then have "e'' \<in> set (map UnifiedFile ps)" "buildPathHashDigest s (path e'') = k"
        by (auto dest: latest_Some)
      then have "\<exists>q\<in>set ps. buildPathHashDigest s q = k" by auto
      with OpGetFilePaths Inr show ?thesis by (simp add: list_ex_iff)
    qed
  qed
next
  case (OpDeleteFile q)
  with assms show ?thesis by (auto simp: deleteFile_def Let_def split: if_splits)
next
  case (OpUpsertData q d)
  with assms show ?thesis by (auto simp: upsertData_def Let_def split: if_splits)
next
  case (BackingStoreChanges g ge rd rf)
  with assms show ?thesis by simp
qed

lemma kind_cases: "kind e \<noteq> KindDirectory \<longleftrightarrow> kind e = KindFile"
  by (cases e) simp_all

lemma run_Cons: "run (operation # ops) s = run ops (perform operation s)"
  by (simp add: run_def)

lemma run_Nil: "run [] s = s"
  by (simp add: run_def)

lemma run_append: "run (ops @ ops') s = run ops' (run ops s)"
  by (simp add: run_def)

lemma new_fields:
  "entries (new_UnifiedFileSystem g ge rd rf h) = Map.empty"
  "directoryFiles (new_UnifiedFileSystem g ge rd rf h) = []"
  "changes (new_UnifiedFileSystem g ge rd rf h) = []"
  "buildPathHashDigest (new_UnifiedFileSystem g ge rd rf h) = h"
  by (simp_all add: new_UnifiedFileSystem_def)

subsection \<open>Paths that were never observed\<close>

lemma run_unobserved:
  "entries s (buildPathHashDigest s p) = None \<Longrightarrow> neverObserved p ops s \<Longrightarrow>
   entries (run ops s) (buildPathHashDigest s p) = None"
proof (induction ops arbitrary: s)
  case Nil
  then show ?case by (simp add: run_Nil)
next
  case (Cons operation ops)
  have "entries (perform operation s) (buildPathHashDigest s p) = None"
  proof (cases "entries (perform operation s) (buildPathHashDigest s p)")
    case (Some e')
    from perform_backward [OF Some] Cons.prems show ?thesis by simp
  qed simp
  with Cons.IH [of "perform operation s"] Cons.prems show ?case
    by (simp add: run_Cons perform_digest)
qed

text \<open>
  C6. On an instance made by the constructor and then used in any way that never
  observes a path with the key of \<open>p\<close>, \<open>exists p\<close> and \<open>isDirectory p\<close> are false,
  whatever the backing collaborators are and would answer about \<open>p\<close>. Both methods are
  functions of the state to a truth value: they add no call of a collaborator to the
  state, and in any state their answer for any path is the same whatever the backing
  collaborators have become.
\<close>

theorem unobserved_path_is_unknown:
  assumes "neverObserved p ops (new_UnifiedFileSystem g ge rd rf h)"
  shows "\<not> exists p (run ops (new_UnifiedFileSystem g ge rd rf h))
       \<and> \<not> isDirectory p (run ops (new_UnifiedFileSystem g ge rd rf h))
       \<and> exists q (perform (BackingStoreChanges g' ge' rd' rf') s) = exists q s
       \<and> isDirectory q (perform (BackingStoreChanges g' ge' rd' rf') s) = isDirectory q s"
proof -
  let ?s = "new_UnifiedFileSystem g ge rd rf h"
  have "entries ?s (buildPathHashDigest ?s p) = None" by (simp add: new_fields)
  from run_unobserved [OF this assms]
  have "entries (run ops ?s) (buildPathHashDigest (run ops ?s) p) = None"
    by (simp add: run_digest)
  then show ?thesis by (simp add: exists_def isDirectory_def)
qed

theorem unobserved_path_is_unknown_witness:
  "neverObserved ''/x''
     [OpUpsertUnifiedFile ''/d/a'', OpReadDirectory ''/d'', OpUpsertData ''/y'' ''new'']
     exampleFileSystem
   \<and> getUnifiedEntry exampleFileSystem ''/x'' = Inr (UnifiedFile ''/x'')
   \<and> \<not> exists ''/x''
        (run [OpUpsertUnifiedFile ''/d/a'', OpReadDirectory ''/d'', OpUpsertData ''/y'' ''new'']
           exampleFileSystem)
   \<and> \<not> isDirectory ''/x''
        (run [OpUpsertUnifiedFile ''/d/a'', OpReadDirectory ''/d'', OpUpsertData ''/y'' ''new'']
           exampleFileSystem)"
proof -
  have h: "neverObserved ''/x''
     [OpUpsertUnifiedFile ''/d/a'', OpReadDirectory ''/d'', OpUpsertData ''/y'' ''new'']
     exampleFileSystem"
    by (simp add: exampleFileSystem_def method_defs)
  have g: "getUnifiedEntry exampleFileSystem ''/x'' = Inr (UnifiedFile ''/x'')"
    by (simp add: exampleFileSystem_def method_defs)
  from unobserved_path_is_unknown [OF h [unfolded exampleFileSystem_def]] h g
  show ?thesis by (simp only: exampleFileSystem_def simp_thms)
qed

subsection \<open>Paths staged for deletion\<close>

lemma run_exists:
  "entries s (buildPathHashDigest s p) \<noteq> None \<Longrightarrow>
   entries (run ops s) (buildPathHashDigest s p) \<noteq> None"
proof (induction ops arbitrary: s)
  case Nil
  then show ?case by (simp add: run_Nil)
next
  case (Cons operation ops)
  from Cons.prems obtain e where "entries s (buildPathHashDigest s p) = Some e" by auto
  from perform_forward [OF this, of operation]
  have "entries (perform operation s) (buildPathHashDigest (perform operation s) p) \<noteq> None"
    by (auto simp: perform_digest)
  from Cons.IH [OF this] show ?case by (simp add: run_Cons perform_digest)
qed

lemma run_stays_file:
  "entries s (buildPathHashDigest s p) = Some e \<Longrightarrow> kind e = KindFile \<Longrightarrow>
   neverListedAsDirectory p ops s \<Longrightarrow>
   \<exists>e'. entries (run ops s) (buildPathHashDigest s p) = Some e' \<and> kind e' = KindFile"
proof (induction ops arbitrary: s e)
  case Nil
  then show ?case by (simp add: run_Nil)
next
  case (Cons operation ops)
  from perform_forward [OF Cons.prems(1), of operation] Cons.prems(2,3)
  obtain e' where e': "entries (perform operation s) (buildPathHashDigest s p) = Some e'"
      "kind e' = KindFile"
    by (auto simp: kind_cases [symmetric])
  from Cons.IH [of "perform operation s" e'] e' Cons.prems(3)
  show ?case by (simp add: run_Cons perform_digest)
qed

text \<open>
  After \<open>deleteFile p\<close>, whatever is done to the instance afterwards, \<open>exists p\<close> is
  true; and \<open>isDirectory p\<close> is false as long as no listing has had the backing store
  report a directory with the key of \<open>p\<close>.
\<close>

lemma deleted_path_exists_as_file:
  "exists p (run ops (deleteFile p s))
   \<and> (neverListedAsDirectory p ops (deleteFile p s) \<longrightarrow> \<not> isDirectory p (run ops (deleteFile p s)))"
proof -
  let ?s = "deleteFile p s"
  have e: "entries ?s (buildPathHashDigest ?s p) = Some (UnifiedFile p)"
    by (simp add: deleteFile_def Let_def)
  then have "entries ?s (buildPathHashDigest ?s p) \<noteq> None" by simp
  from run_exists [OF this, of ops] have 1: "exists p (run ops ?s)"
    by (simp add: exists_def run_digest)
  have 2: "\<not> isDirectory p (run ops ?s)" if "neverListedAsDirectory p ops ?s"
    using run_stays_file [OF e _ that] by (auto simp: isDirectory_def run_digest)
  from 1 2 show ?thesis by blast
qed

text \<open>
  C10. The claim: after \<open>deleteFile p\<close>, \<open>exists p\<close> is true and \<open>isDirectory p\<close> is false
  for the rest of the run. \<^verbatim>\<open>readDirectory\<close> writes the entry of every child the backing
  store reports, without the check that its two comments
  \<^verbatim>\<open>TODO check if it's not removed\<close> call for. Here \<^verbatim>\<open>/a\<close> is staged for deletion and
  is not a directory; the store then lists it as a directory, and \<open>isDirectory\<close> is true
  of it while its deletion is still staged.
\<close>

theorem deleted_path_listed_as_directory:
  "\<not> isDirectory ''/a''
       (deleteFile ''/a''
          (new_UnifiedFileSystem (\<lambda>_. Inr []) (\<lambda>q. Inr (UnifiedDirectory q))
             (\<lambda>_. Inr [UnifiedDirectory ''/a'']) (\<lambda>_. Inr '''') (\<lambda>q. q)))
   \<and> isDirectory ''/a''
       (run [OpReadDirectory ''/'']
          (deleteFile ''/a''
             (new_UnifiedFileSystem (\<lambda>_. Inr []) (\<lambda>q. Inr (UnifiedDirectory q))
                (\<lambda>_. Inr [UnifiedDirectory ''/a'']) (\<lambda>_. Inr '''') (\<lambda>q. q))))
   \<and> map_of
         (changes
            (run [OpReadDirectory ''/'']
               (deleteFile ''/a''
                  (new_UnifiedFileSystem (\<lambda>_. Inr []) (\<lambda>q. Inr (UnifiedDirectory q))
                     (\<lambda>_. Inr [UnifiedDirectory ''/a'']) (\<lambda>_. Inr '''') (\<lambda>q. q)))))
         ''/a''
       = Some None"
  by (simp add: method_defs)

subsection \<open>The membership index\<close>

lemma perform_wellKeyed:
  assumes "wellKeyed s k"
  shows "wellKeyed (perform operation s) k"
proof -
  from assms obtain e where e: "entries s k = Some e" "buildPathHashDigest s (path e) = k"
    by (auto simp: wellKeyed_def split: option.splits)
  from e have "entries s (buildPathHashDigest s (path e)) = Some e" by simp
  from perform_forward [OF this, of operation] e(2)
  show ?thesis by (auto simp: wellKeyed_def perform_digest)
qed

lemma readFile_frame:
  "directoryFiles (snd (readFile p s)) = directoryFiles s"
  "changes (snd (readFile p s)) = changes s"
  "entries (snd (readFile p s)) = entries s"
  using readFile_snd [of p s] by (auto simp: called_fields)

lemma perform_index_subset:
  "set (directoryFiles s) \<subseteq> set (directoryFiles (perform operation s))"
  by (cases operation)
     (auto simp: upsertUnifiedEntry_frame upsertUnifiedDirectory_frame upsertUnifiedFile_frame
        readFile_frame readDirectory_snd getFilePaths_snd fold_recordChild_index
        fold_recordFile_fields called_fields deleteFile_def upsertData_def Let_def
        split: sum.splits)

lemma perform_index_new:
  assumes "(l, r) \<in> set (directoryFiles (perform operation s))"
  shows "(l, r) \<in> set (directoryFiles s) \<or> wellKeyed (perform operation s) r"
proof (cases operation)
  case (OpReadDirectory d)
  show ?thesis
  proof (cases "backingReadDirectory s d")
    case (Inl reason)
    with assms OpReadDirectory show ?thesis by (simp add: readDirectory_snd called_fields)
  next
    case (Inr es)
    show ?thesis
    proof (cases "(l, r) \<in> set (directoryFiles s)")
      case True
      then show ?thesis by simp
    next
      case False
      with assms OpReadDirectory Inr obtain e where e: "e \<in> set es"
          "r = buildPathHashDigest s (path e)"
        by (auto simp: readDirectory_snd fold_recordChild_index called_fields)
      from e have "latest (buildPathHashDigest s) r es \<noteq> None"
        using latest_None [of "buildPathHashDigest s" r es e] by blast
      then obtain e' where "latest (buildPathHashDigest s) r es = Some e'" by blast
      moreover from this have "buildPathHashDigest s (path e') = r" by (auto dest: latest_Some)
      ultimately have "wellKeyed (perform operation s) r"
        using OpReadDirectory Inr
        by (simp add: wellKeyed_def readDirectory_snd fold_recordChild_entries
              fold_recordChild_fields called_fields)
      then show ?thesis ..
    qed
  qed
next
  case (OpReadFile q)
  with assms show ?thesis by (simp add: readFile_frame)
qed (use assms in \<open>simp_all add: upsertUnifiedEntry_frame upsertUnifiedDirectory_frame
       upsertUnifiedFile_frame getFilePaths_snd fold_recordFile_fields called_fields
       deleteFile_def upsertData_def Let_def split: sum.splits\<close>)

lemma perform_indexInv: "indexInv s \<Longrightarrow> indexInv (perform operation s)"
  unfolding indexInv_def list_all_iff
  using perform_index_new [of _ _ operation s] perform_wellKeyed [of s _ operation]
  by fastforce

lemma run_indexInv: "indexInv s \<Longrightarrow> indexInv (run ops s)"
  by (induction ops arbitrary: s) (simp_all add: run_Nil run_Cons perform_indexInv)

lemma run_index_subset: "set (directoryFiles s) \<subseteq> set (directoryFiles (run ops s))"
proof (induction ops arbitrary: s)
  case Nil
  show ?case by (simp add: run_Nil)
next
  case (Cons operation ops)
  from perform_index_subset [of s operation] Cons.IH [of "perform operation s"]
  show ?case unfolding run_Cons by blast
qed

lemma run_wellKeyed: "wellKeyed s k \<Longrightarrow> wellKeyed (run ops s) k"
  by (induction ops arbitrary: s) (simp_all add: run_Nil run_Cons perform_wellKeyed)

lemma set_childPaths:
  "set (childPaths dk s) =
     {path e | r e. (dk, r) \<in> set (directoryFiles s) \<and> entries s r = Some e}"
  by (auto simp: childPaths_def getRightHashesByLeftHash_def split: option.splits) force

lemma readDirectory_resolves:
  "backingReadDirectory s d = Inr reported \<Longrightarrow>
   fst (readDirectory d s) = Inr (childPaths (buildPathHashDigest s d) (snd (readDirectory d s)))"
  by (simp add: readDirectory_def Let_def)

lemma reported_child_listed:
  assumes "backingReadDirectory s d = Inr reported" and "e \<in> set reported"
  shows "\<exists>e'. path e' \<in> set (childPaths (buildPathHashDigest s d) (snd (readDirectory d s)))
            \<and> buildPathHashDigest s (path e') = buildPathHashDigest s (path e)"
proof -
  let ?r = "buildPathHashDigest s (path e)"
  let ?s' = "snd (readDirectory d s)"
  from assms have "latest (buildPathHashDigest s) ?r reported \<noteq> None"
    using latest_None [of "buildPathHashDigest s" ?r reported e] by blast
  then obtain e' where l: "latest (buildPathHashDigest s) ?r reported = Some e'" by blast
  then have k: "buildPathHashDigest s (path e') = ?r" by (auto dest: latest_Some)
  from assms l have "entries ?s' ?r = Some e'"
    by (simp add: readDirectory_snd fold_recordChild_entries called_fields)
  moreover from assms have "(buildPathHashDigest s d, ?r) \<in> set (directoryFiles ?s')"
    by (simp add: readDirectory_snd fold_recordChild_index called_fields)
  ultimately have "path e' \<in> set (childPaths (buildPathHashDigest s d) ?s')"
    unfolding set_childPaths by blast
  with k show ?thesis by blast
qed

lemma listed_child_stays:
  assumes inv: "indexInv s" and q: "q \<in> set (childPaths dk s)"
  shows "\<exists>q'. q' \<in> set (childPaths dk (run ops s))
            \<and> buildPathHashDigest s q' = buildPathHashDigest s q
            \<and> (inj (buildPathHashDigest s) \<longrightarrow> q' = q)"
proof -
  from q obtain r e where r: "(dk, r) \<in> set (directoryFiles s)" "entries s r = Some e" "q = path e"
    by (auto simp: set_childPaths)
  from inv r(1) have wk: "wellKeyed s r" by (auto simp: indexInv_def list_all_iff)
  with r(2,3) have kq: "buildPathHashDigest s q = r" by (simp add: wellKeyed_def)
  from wk have "wellKeyed (run ops s) r" by (rule run_wellKeyed)
  then obtain e' where e': "entries (run ops s) r = Some e'" "buildPathHashDigest s (path e') = r"
    by (auto simp: wellKeyed_def run_digest split: option.splits)
  from r(1) run_index_subset [of s ops] have "(dk, r) \<in> set (directoryFiles (run ops s))" by blast
  with e'(1) have "path e' \<in> set (childPaths dk (run ops s))"
    unfolding set_childPaths by blast
  moreover from e'(2) kq have "buildPathHashDigest s (path e') = buildPathHashDigest s q" by simp
  moreover from this have "inj (buildPathHashDigest s) \<longrightarrow> path e' = q" by (auto dest: injD)
  ultimately show ?thesis by blast
qed

text \<open>
  C8. On an instance made by the constructor and used in any way, take a listing of \<open>d\<close>
  for which the backing store reports the entries \<open>reported\<close>, and any later listing of
  \<open>d\<close>, whatever was done in between and whatever the store reports then. Both listings
  return; every child the store reported is among the children the first listing returns;
  every child the first listing returns is among those the later listing returns; and so
  is every child the store reports at the later listing. Children are compared by their
  path keys, which is the identity of paths; when the key deriver is collision-free the
  same holds of the path strings. The membership index after a listing contains the index
  before it.
\<close>

theorem membership_is_sticky:
  assumes first: "backingReadDirectory (run ops (new_UnifiedFileSystem g ge rd rf h)) d = Inr reported"
    and later: "backingReadDirectory
                  (run ops' (snd (readDirectory d (run ops (new_UnifiedFileSystem g ge rd rf h))))) d
                = Inr reported'"
  shows "\<exists>children children'.
           fst (readDirectory d (run ops (new_UnifiedFileSystem g ge rd rf h))) = Inr children
         \<and> fst (readDirectory d
                  (run ops' (snd (readDirectory d (run ops (new_UnifiedFileSystem g ge rd rf h))))))
             = Inr children'
         \<and> h ` path ` set reported \<subseteq> h ` set children
         \<and> h ` set children \<subseteq> h ` set children'
         \<and> h ` path ` set reported' \<subseteq> h ` set children'
         \<and> (inj h \<longrightarrow> path ` set reported \<subseteq> set children
                      \<and> set children \<subseteq> set children'
                      \<and> path ` set reported' \<subseteq> set children')
         \<and> set (directoryFiles (run ops (new_UnifiedFileSystem g ge rd rf h)))
             \<subseteq> set (directoryFiles (snd (readDirectory d (run ops (new_UnifiedFileSystem g ge rd rf h)))))
         \<and> set (directoryFiles (snd (readDirectory d (run ops (new_UnifiedFileSystem g ge rd rf h)))))
             \<subseteq> set (directoryFiles (snd (readDirectory d
                   (run ops' (snd (readDirectory d (run ops (new_UnifiedFileSystem g ge rd rf h))))))))"
proof -
  let ?s0 = "run ops (new_UnifiedFileSystem g ge rd rf h)"
  let ?s1 = "snd (readDirectory d ?s0)"
  let ?t = "run ops' ?s1"
  let ?s2 = "snd (readDirectory d ?t)"
  let ?c1 = "childPaths (h d) ?s1"
  let ?c2 = "childPaths (h d) ?s2"
  have p1: "?s1 = perform (OpReadDirectory d) ?s0" by simp
  have p2: "?s2 = run (ops' @ [OpReadDirectory d]) ?s1" by (simp add: run_append run_Cons run_Nil)
  have h0: "buildPathHashDigest ?s0 = h" by (simp only: run_digest new_fields)
  have h1: "buildPathHashDigest ?s1 = h" by (simp only: p1 perform_digest h0)
  have ht: "buildPathHashDigest ?t = h" by (simp only: run_digest h1)
  have "indexInv (new_UnifiedFileSystem g ge rd rf h)" by (simp add: indexInv_def new_fields)
  then have "indexInv ?s0" by (rule run_indexInv)
  then have "indexInv (perform (OpReadDirectory d) ?s0)" by (rule perform_indexInv)
  then have inv1: "indexInv ?s1" by (simp only: p1)
  from readDirectory_resolves [OF first] have r1: "fst (readDirectory d ?s0) = Inr ?c1"
    by (simp only: h0)
  from readDirectory_resolves [OF later] have r2: "fst (readDirectory d ?t) = Inr ?c2"
    by (simp only: ht)
  have rep1: "\<exists>q. q \<in> set ?c1 \<and> h q = h (path e) \<and> (inj h \<longrightarrow> q = path e)"
    if "e \<in> set reported" for e
    using reported_child_listed [OF first that] unfolding h0 by (auto dest: injD)
  have rep2: "\<exists>q. q \<in> set ?c2 \<and> h q = h (path e) \<and> (inj h \<longrightarrow> q = path e)"
    if "e \<in> set reported'" for e
    using reported_child_listed [OF later that] unfolding ht by (auto dest: injD)
  have stay: "\<exists>q'. q' \<in> set ?c2 \<and> h q' = h q \<and> (inj h \<longrightarrow> q' = q)" if "q \<in> set ?c1" for q
    using listed_child_stays [OF inv1 that, of "ops' @ [OpReadDirectory d]"]
    unfolding h1 p2 [symmetric] by blast
  have k1: "h ` path ` set reported \<subseteq> h ` set ?c1"
  proof
    fix k assume "k \<in> h ` path ` set reported"
    then obtain e where e: "e \<in> set reported" "k = h (path e)" by auto
    from rep1 [OF e(1)] obtain q where "q \<in> set ?c1" "h q = h (path e)" by blast
    with e(2) show "k \<in> h ` set ?c1" by (auto intro: rev_image_eqI)
  qed
  have k2: "h ` set ?c1 \<subseteq> h ` set ?c2"
  proof
    fix k assume "k \<in> h ` set ?c1"
    then obtain q where q: "q \<in> set ?c1" "k = h q" by auto
    from stay [OF q(1)] obtain q' where "q' \<in> set ?c2" "h q' = h q" by blast
    with q(2) show "k \<in> h ` set ?c2" by (auto intro: rev_image_eqI)
  qed
  have k3: "h ` path ` set reported' \<subseteq> h ` set ?c2"
  proof
    fix k assume "k \<in> h ` path ` set reported'"
    then obtain e where e: "e \<in> set reported'" "k = h (path e)" by auto
    from rep2 [OF e(1)] obtain q where "q \<in> set ?c2" "h q = h (path e)" by blast
    with e(2) show "k \<in> h ` set ?c2" by (auto intro: rev_image_eqI)
  qed
  have i1: "path ` set reported \<subseteq> set ?c1" if "inj h"
  proof
    fix q assume "q \<in> path ` set reported"
    then obtain e where e: "e \<in> set reported" "q = path e" by auto
    from rep1 [OF e(1)] that e(2) show "q \<in> set ?c1" by blast
  qed
  have i2: "set ?c1 \<subseteq> set ?c2" if "inj h"
  proof
    fix q assume "q \<in> set ?c1"
    from stay [OF this] that show "q \<in> set ?c2" by blast
  qed
  have i3: "path ` set reported' \<subseteq> set ?c2" if "inj h"
  proof
    fix q assume "q \<in> path ` set reported'"
    then obtain e where e: "e \<in> set reported'" "q = path e" by auto
    from rep2 [OF e(1)] that e(2) show "q \<in> set ?c2" by blast
  qed
  have x1: "set (directoryFiles ?s0) \<subseteq> set (directoryFiles ?s1)"
    using perform_index_subset [of ?s0 "OpReadDirectory d"] by (simp only: p1)
  have x2: "set (directoryFiles ?s1) \<subseteq> set (directoryFiles ?s2)"
    unfolding p2 by (rule run_index_subset)
  from r1 r2 k1 k2 k3 i1 i2 i3 x1 x2 show ?thesis by blast
qed


theorem membership_is_sticky_witness:
  "backingReadDirectory (run [] exampleFileSystem) ''/d''
     = Inr [UnifiedFile ''/d/a'', UnifiedFile ''/d/b'']
   \<and> backingReadDirectory
         (run [BackingStoreChanges (\<lambda>_. Inr []) (\<lambda>_. Inl ''ENOENT'')
                 (\<lambda>_. Inr [UnifiedFile ''/d/a'']) (\<lambda>_. Inr '''')]
            (snd (readDirectory ''/d'' (run [] exampleFileSystem)))) ''/d''
       = Inr [UnifiedFile ''/d/a'']
   \<and> fst (readDirectory ''/d'' (run [] exampleFileSystem)) = Inr [''/d/a'', ''/d/b'']
   \<and> fst (readDirectory ''/d''
            (run [BackingStoreChanges (\<lambda>_. Inr []) (\<lambda>_. Inl ''ENOENT'')
                    (\<lambda>_. Inr [UnifiedFile ''/d/a'']) (\<lambda>_. Inr '''')]
               (snd (readDirectory ''/d'' (run [] exampleFileSystem)))))
       = Inr [''/d/a'', ''/d/b'']
   \<and> (\<lambda>q. q) ` path ` set [UnifiedFile ''/d/a'', UnifiedFile ''/d/b'']
         \<subseteq> (\<lambda>q. q) ` set [''/d/a'', ''/d/b'']
   \<and> (\<lambda>q. q) ` set [''/d/a'', ''/d/b''] \<subseteq> (\<lambda>q. q) ` set [''/d/a'', ''/d/b'']"
proof -
  have first: "backingReadDirectory (run [] exampleFileSystem) ''/d''
     = Inr [UnifiedFile ''/d/a'', UnifiedFile ''/d/b'']"
    by (simp add: exampleFileSystem_def method_defs)
  have later: "backingReadDirectory
         (run [BackingStoreChanges (\<lambda>_. Inr []) (\<lambda>_. Inl ''ENOENT'')
                 (\<lambda>_. Inr [UnifiedFile ''/d/a'']) (\<lambda>_. Inr '''')]
            (snd (readDirectory ''/d'' (run [] exampleFileSystem)))) ''/d''
       = Inr [UnifiedFile ''/d/a'']"
    by (simp add: exampleFileSystem_def method_defs)
  have a: "fst (readDirectory ''/d'' (run [] exampleFileSystem)) = Inr [''/d/a'', ''/d/b'']"
    by (simp add: exampleFileSystem_def method_defs)
  have b: "fst (readDirectory ''/d''
            (run [BackingStoreChanges (\<lambda>_. Inr []) (\<lambda>_. Inl ''ENOENT'')
                    (\<lambda>_. Inr [UnifiedFile ''/d/a'']) (\<lambda>_. Inr '''')]
               (snd (readDirectory ''/d'' (run [] exampleFileSystem)))))
       = Inr [''/d/a'', ''/d/b'']"
    by (simp add: exampleFileSystem_def method_defs)
  from membership_is_sticky [OF first [unfolded exampleFileSystem_def]
      later [unfolded exampleFileSystem_def], folded exampleFileSystem_def]
  obtain children children' where
    c: "fst (readDirectory ''/d'' (run [] exampleFileSystem)) = Inr children"
      "fst (readDirectory ''/d''
            (run [BackingStoreChanges (\<lambda>_. Inr []) (\<lambda>_. Inl ''ENOENT'')
                    (\<lambda>_. Inr [UnifiedFile ''/d/a'']) (\<lambda>_. Inr '''')]
               (snd (readDirectory ''/d'' (run [] exampleFileSystem)))))
       = Inr children'"
      "(\<lambda>q. q) ` path ` set [UnifiedFile ''/d/a'', UnifiedFile ''/d/b''] \<subseteq> (\<lambda>q. q) ` set children"
      "(\<lambda>q. q) ` set children \<subseteq> (\<lambda>q. q) ` set children'"
    by (elim exE conjE)
  from c(1) a have "children = [''/d/a'', ''/d/b'']" by (simp only: sum.inject)
  moreover from c(2) b have "children' = [''/d/a'', ''/d/b'']" by (simp only: sum.inject)
  ultimately
  have "(\<lambda>q. q) ` path ` set [UnifiedFile ''/d/a'', UnifiedFile ''/d/b'']
         \<subseteq> (\<lambda>q. q) ` set [''/d/a'', ''/d/b'']
      \<and> (\<lambda>q. q) ` set [''/d/a'', ''/d/b''] \<subseteq> (\<lambda>q. q) ` set [''/d/a'', ''/d/b'']"
    using c(3,4) by (simp only: simp_thms)
  with first later a b show ?thesis by (simp only: simp_thms)
qed

subsection \<open>The change ledger and the external commands\<close>

lemma set_update_subset: "set (AList.update k v al) \<subseteq> insert (k, v) (set al)"
  by (induction al) auto

lemma perform_changes_distinct:
  "distinct (map fst (changes s)) \<Longrightarrow> distinct (map fst (changes (perform operation s)))"
  by (cases operation)
     (simp_all add: upsertUnifiedEntry_frame upsertUnifiedDirectory_frame upsertUnifiedFile_frame
        readFile_frame readDirectory_snd getFilePaths_snd fold_recordChild_fields
        fold_recordFile_fields called_fields deleteFile_def upsertData_def Let_def distinct_update
        split: sum.splits)

lemma perform_changes_new:
  assumes "(k, v) \<in> set (changes (perform operation s))"
  shows "(k, v) \<in> set (changes s) \<or> wellKeyed (perform operation s) k"
proof (cases operation)
  case (OpDeleteFile q)
  with assms set_update_subset [of "buildPathHashDigest s q" None "changes s"]
  have "(k, v) \<in> set (changes s) \<or> k = buildPathHashDigest s q"
    by (auto simp: deleteFile_def Let_def)
  with OpDeleteFile show ?thesis by (auto simp: wellKeyed_def deleteFile_def Let_def)
next
  case (OpUpsertData q d)
  with assms set_update_subset [of "buildPathHashDigest s q" "Some d" "changes s"]
  have "(k, v) \<in> set (changes s) \<or> k = buildPathHashDigest s q"
    by (auto simp: upsertData_def Let_def)
  with OpUpsertData show ?thesis by (auto simp: wellKeyed_def upsertData_def Let_def)
qed (use assms in \<open>simp_all add: upsertUnifiedEntry_frame upsertUnifiedDirectory_frame
       upsertUnifiedFile_frame readFile_frame readDirectory_snd getFilePaths_snd
       fold_recordChild_fields fold_recordFile_fields called_fields split: sum.splits\<close>)

lemma perform_changesInv: "changesInv s \<Longrightarrow> changesInv (perform operation s)"
  unfolding changesInv_def list_all_iff
  using perform_changes_new [of _ _ operation s] perform_wellKeyed [of s _ operation]
    perform_changes_distinct [of s operation]
  by fastforce

lemma run_changesInv: "changesInv s \<Longrightarrow> changesInv (run ops s)"
  by (induction ops arbitrary: s) (simp_all add: run_Nil run_Cons perform_changesInv)

lemma new_changesInv: "changesInv (new_UnifiedFileSystem g ge rd rf h)"
  by (simp add: changesInv_def new_fields)

lemma externalCommandsOf_wellKeyed:
  assumes "wellKeyed s k"
  shows "\<exists>c. externalCommandsOf s (k, v) = [c] \<and> buildPathHashDigest s (externalPath c) = k"
  using assms
  by (cases v) (auto simp: externalCommandsOf_def wellKeyed_def Let_def split: option.splits)

lemma commands_keys:
  "list_all (\<lambda>kv. wellKeyed s (fst kv)) al \<Longrightarrow>
   map (\<lambda>c. buildPathHashDigest s (externalPath c)) (concat (map (externalCommandsOf s) al))
     = map fst al"
proof (induction al)
  case Nil
  show ?case by simp
next
  case (Cons kv al)
  obtain k v where kv: "kv = (k, v)" by (cases kv)
  with Cons.prems have "wellKeyed s k" by simp
  from externalCommandsOf_wellKeyed [OF this, of v] kv Cons show ?case by auto
qed

lemma commands_of_other_keys:
  "list_all (\<lambda>kv. wellKeyed s (fst kv)) al \<Longrightarrow> buildPathHashDigest s p \<notin> fst ` set al \<Longrightarrow>
   filter (\<lambda>c. externalPath c = p) (concat (map (externalCommandsOf s) al)) = []"
proof -
  assume a: "list_all (\<lambda>kv. wellKeyed s (fst kv)) al" and b: "buildPathHashDigest s p \<notin> fst ` set al"
  have "\<forall>c \<in> set (concat (map (externalCommandsOf s) al)). externalPath c \<noteq> p"
  proof
    fix c assume "c \<in> set (concat (map (externalCommandsOf s) al))"
    then have "buildPathHashDigest s (externalPath c)
        \<in> set (map (\<lambda>c. buildPathHashDigest s (externalPath c)) (concat (map (externalCommandsOf s) al)))"
      by (simp only: set_map) (rule imageI)
    then have "buildPathHashDigest s (externalPath c) \<in> fst ` set al"
      by (simp only: commands_keys [OF a] set_map)
    with b show "externalPath c \<noteq> p" by auto
  qed
  then show ?thesis by (simp add: filter_empty_conv)
qed

lemma commands_of_staged_content:
  assumes "distinct (map fst al)" and "list_all (\<lambda>kv. wellKeyed s (fst kv)) al"
    and "map_of al (buildPathHashDigest s p) = Some (Some d)"
    and "entries s (buildPathHashDigest s p) = Some (UnifiedFile p)"
  shows "filter (\<lambda>c. externalPath c = p) (concat (map (externalCommandsOf s) al))
           = [ExternalUpsertFile p d]"
  using assms(1-3)
proof (induction al)
  case Nil
  then show ?case by simp
next
  case (Cons kv al)
  obtain k v where kv: "kv = (k, v)" by (cases kv)
  show ?case
  proof (cases "k = buildPathHashDigest s p")
    case True
    with Cons.prems kv have v: "v = Some d" by simp
    from Cons.prems kv True have "buildPathHashDigest s p \<notin> fst ` set al" by simp
    with Cons.prems commands_of_other_keys [of s al p]
    have "filter (\<lambda>c. externalPath c = p) (concat (map (externalCommandsOf s) al)) = []" by simp
    moreover from True v assms(4) have "externalCommandsOf s (k, v) = [ExternalUpsertFile p d]"
      by (simp add: externalCommandsOf_def Let_def)
    ultimately show ?thesis using kv by simp
  next
    case False
    from Cons.prems kv have "wellKeyed s k" by simp
    from externalCommandsOf_wellKeyed [OF this, of v] False
    have "filter (\<lambda>c. externalPath c = p) (externalCommandsOf s (k, v)) = []" by auto
    moreover from Cons.prems kv False have "map_of al (buildPathHashDigest s p) = Some (Some d)"
      by simp
    ultimately show ?thesis using Cons kv by simp
  qed
qed

text \<open>
  C4. On an instance made by the constructor and used in any way, and then
  \<open>upsertData p a\<close> and \<open>upsertData p b\<close>: the external commands hold exactly one command
  with path \<open>p\<close>, the upsert of \<open>b\<close> (and on a new instance it is the only command). The
  change ledger never holds two entries with one key; staging content or a deletion
  replaces what was staged under the key; and no path occurs twice in the external
  commands.
\<close>

theorem last_write_wins:
  "filter (\<lambda>c. externalPath c = p)
      (buildExternalFileCommands
         (upsertData p b (upsertData p a (run ops (new_UnifiedFileSystem g ge rd rf h)))))
     = [ExternalUpsertFile p b]
   \<and> buildExternalFileCommands (upsertData p b (upsertData p a (new_UnifiedFileSystem g ge rd rf h)))
     = [ExternalUpsertFile p b]
   \<and> distinct (map fst (changes (run ops (new_UnifiedFileSystem g ge rd rf h))))
   \<and> map_of (changes (upsertData p x s)) (buildPathHashDigest s p) = Some (Some x)
   \<and> map_of (changes (deleteFile p s)) (buildPathHashDigest s p) = Some None
   \<and> distinct (map externalPath
        (buildExternalFileCommands (run ops (new_UnifiedFileSystem g ge rd rf h))))"
proof -
  let ?n = "new_UnifiedFileSystem g ge rd rf h"
  let ?s = "run ops ?n"
  let ?s2 = "run (ops @ [OpUpsertData p a, OpUpsertData p b]) ?n"
  have s2: "upsertData p b (upsertData p a ?s) = ?s2" by (simp add: run_append run_Cons run_Nil)
  have inv: "changesInv ?s" and inv2: "changesInv ?s2"
    by (rule run_changesInv [OF new_changesInv])+
  have "map_of (changes (upsertData p b (upsertData p a ?s)))
          (buildPathHashDigest (upsertData p b (upsertData p a ?s)) p) = Some (Some b)"
    "entries (upsertData p b (upsertData p a ?s))
          (buildPathHashDigest (upsertData p b (upsertData p a ?s)) p) = Some (UnifiedFile p)"
    by (simp_all add: upsertData_def Let_def update_conv')
  with inv2 commands_of_staged_content [of "changes ?s2" ?s2 p b]
  have 1: "filter (\<lambda>c. externalPath c = p) (buildExternalFileCommands ?s2) = [ExternalUpsertFile p b]"
    by (simp add: s2 changesInv_def buildExternalFileCommands_def)
  have 2: "buildExternalFileCommands (upsertData p b (upsertData p a ?n)) = [ExternalUpsertFile p b]"
    by (simp add: buildExternalFileCommands_def externalCommandsOf_def upsertData_def Let_def
          new_UnifiedFileSystem_def)
  from inv have 3: "distinct (map fst (changes ?s))" by (simp add: changesInv_def)
  have 4: "map_of (changes (upsertData p x s)) (buildPathHashDigest s p) = Some (Some x)"
    "map_of (changes (deleteFile p s)) (buildPathHashDigest s p) = Some None"
    by (simp_all add: upsertData_def deleteFile_def Let_def update_conv')
  from inv have "map (\<lambda>c. buildPathHashDigest ?s (externalPath c)) (buildExternalFileCommands ?s)
      = map fst (changes ?s)"
    by (simp add: changesInv_def buildExternalFileCommands_def commands_keys)
  with 3 have "distinct (map (buildPathHashDigest ?s) (map externalPath (buildExternalFileCommands ?s)))"
    by (simp add: comp_def)
  then have 5: "distinct (map externalPath (buildExternalFileCommands ?s))"
    by (rule distinct_map [THEN iffD1, THEN conjunct1])
  from 1 2 3 4 5 show ?thesis by (simp only: s2 simp_thms)
qed

section \<open>Properties of the command interpreter\<close>

text \<open>
  C7. A \<^verbatim>\<open>moveFile\<close> or \<^verbatim>\<open>copyFile\<close> command returns at once, at any depth allowed:
  the facade's state is the one before, and the trace gains only the dispatch of the
  command itself, so no method of the facade and no hook is called and no further
  command is dispatched.
\<close>

theorem handleCommand_move_copy:
  "handleCommand (Suc depth) api repomod
       (FileCommand (MoveFileCommand oldPath newPath options)) (f, tr)
     = Some (Inr (), (f, tr @ [Dispatched (FileCommand (MoveFileCommand oldPath newPath options))]))
   \<and> handleCommand (Suc depth) api repomod
       (FileCommand (CopyFileCommand oldPath newPath options)) (f, tr)
     = Some (Inr (), (f, tr @ [Dispatched (FileCommand (CopyFileCommand oldPath newPath options))]))"
  by (simp add: andThen_def noted_def returned_def)

subsection \<open>Traces\<close>

lemma emitsI:
  "(\<And>st r st'. m st = Some (r, st') \<Longrightarrow> \<exists>evs. snd st' = snd st @ evs \<and> list_all P evs) \<Longrightarrow> emits P m"
  unfolding emits_def by blast

lemma emitsD:
  "emits P m \<Longrightarrow> m st = Some (r, st') \<Longrightarrow> \<exists>evs. snd st' = snd st @ evs \<and> list_all P evs"
  unfolding emits_def by blast

lemma emits_returned: "emits P (returned a)"
  by (rule emitsI) (auto simp: returned_def)

lemma emits_noted: "P ev \<Longrightarrow> emits P (noted ev)"
  by (rule emitsI) (auto simp: noted_def)

lemma emits_awaited: "(\<And>r. P (ev r)) \<Longrightarrow> emits P (awaited ev call)"
  by (rule emitsI) (auto simp: awaited_def split: prod.splits)

lemma emits_none: "emits P (\<lambda>st. None)"
  by (rule emitsI) simp

lemma emits_andThen:
  assumes m: "emits P m" and k: "\<And>a. emits P (k a)"
  shows "emits P (andThen m k)"
proof (rule emitsI)
  fix st r st'
  assume run: "andThen m k st = Some (r, st')"
  show "\<exists>evs. snd st' = snd st @ evs \<and> list_all P evs"
  proof (cases "m st")
    case None
    with run show ?thesis by (simp add: andThen_def)
  next
    case (Some res)
    obtain r1 st1 where res: "res = (r1, st1)" by (cases res)
    from emitsD [OF m] Some res obtain evs1 where evs1: "snd st1 = snd st @ evs1" "list_all P evs1"
      by blast
    show ?thesis
    proof (cases r1)
      case (Inl e)
      with run Some res evs1 show ?thesis by (auto simp: andThen_def)
    next
      case (Inr a)
      with run Some res have "k a st1 = Some (r, st')" by (simp add: andThen_def)
      from emitsD [OF k this] obtain evs2 where "snd st' = snd st1 @ evs2" "list_all P evs2"
        by blast
      with evs1 show ?thesis by auto
    qed
  qed
qed

lemma emits_forEach:
  assumes "\<And>x. emits P (body x)"
  shows "emits P (forEach body xs)"
  by (induction xs) (simp_all add: emits_returned emits_andThen assms)

lemma emits_data:
  "emits quiet (handleCommand depth api repomod (DataCommand c))"
proof (cases depth)
  case 0
  then show ?thesis by (simp add: emits_none)
next
  case (Suc n)
  then show ?thesis
    by (cases c) (auto intro!: emits_andThen emits_noted emits_awaited emits_returned simp: quiet_def)
qed

lemma emits_file:
  "emits quiet (handleCommand depth api repomod (FileCommand c))"
proof (cases depth)
  case 0
  then show ?thesis by (simp add: emits_none)
next
  case (Suc n)
  then show ?thesis
    by (cases c)
       (auto intro!: emits_andThen emits_noted emits_awaited emits_returned emits_data
          simp: quiet_def)
qed

lemma emits_any: "emits (\<lambda>_. True) (handleCommand depth api repomod c)"
proof (induction depth arbitrary: c)
  case 0
  show ?case by (simp add: emits_none)
next
  case (Suc n)
  show ?case
    by (auto intro!: emits_andThen emits_noted emits_awaited emits_returned emits_forEach Suc
          simp: Let_def
          split: Command.splits DirectoryCommand.splits FileCommand.splits DataCommand.splits
            option.splits)
qed


lemma handleFile_trace:
  assumes "handleCommand depth api repomod (DirectoryCommand (HandleFileCommand q options)) (f, tr)
             = Some (r, (f', tr'))"
  shows "\<exists>evs. tr' = tr @ Dispatched (DirectoryCommand (HandleFileCommand q options)) # evs
               \<and> list_all quiet evs"
proof (cases depth)
  case 0
  with assms show ?thesis by simp
next
  case (Suc n)
  let ?body = "andThen
      (awaited (UpsertFacadeFile q) (ffs_upsertFacadeFile (facadeFileSystem api) q))
      (\<lambda>facadeEntry.
         case facadeEntry of
           None \<Rightarrow> returned ()
         | Some _ \<Rightarrow>
             andThen
               (awaited (HandleFileHook q options)
                  ((case handleFile repomod of
                      None \<Rightarrow> defaultHandleFile
                    | Some hook \<Rightarrow> hook) (fileAPI api) q options))
               (\<lambda>commands.
                  forEach (\<lambda>c. handleCommand n api repomod (FileCommand c)) commands))"
  have body: "emits quiet ?body"
    by (auto intro!: emits_andThen emits_awaited emits_returned emits_forEach emits_file
          simp: quiet_def split: option.splits)
  from assms Suc
  have "?body (f, tr @ [Dispatched (DirectoryCommand (HandleFileCommand q options))])
          = Some (r, (f', tr'))"
    by (simp add: andThen_def [of "noted _"] noted_def)
  from emitsD [OF body this] show ?thesis by auto
qed

lemma forEach_handleFile_trace:
  "forEach (\<lambda>q. handleCommand depth api repomod (DirectoryCommand (HandleFileCommand q options)))
     paths (f, tr) = Some (r, (f', tr')) \<Longrightarrow>
   \<exists>mid done later. tr' = tr @ mid \<and> \<not> list_ex directoryLevel mid
      \<and> paths = done @ later
      \<and> filter isHandleFileDispatch mid = handleFileDispatches options done
      \<and> (r = Inr () \<longrightarrow> later = [])"
proof (induction paths arbitrary: f tr)
  case Nil
  then have "tr' = tr" by (simp add: returned_def)
  then show ?case by (auto simp: handleFileDispatches_def)
next
  case (Cons q paths)
  let ?h = "handleCommand depth api repomod (DirectoryCommand (HandleFileCommand q options))"
  let ?D = "Dispatched (DirectoryCommand (HandleFileCommand q options))"
  from Cons.prems obtain r1 f1 tr1 where first: "?h (f, tr) = Some (r1, (f1, tr1))"
    by (cases "?h (f, tr)") (auto simp: andThen_def)
  from handleFile_trace [OF first] obtain evs where evs: "tr1 = tr @ ?D # evs" "list_all quiet evs"
    by blast
  then have q1: "\<not> list_ex directoryLevel (?D # evs)"
    and q2: "filter isHandleFileDispatch (?D # evs) = [?D]"
    by (auto simp: quiet_def list_all_iff list_ex_iff filter_empty_conv)
  show ?case
  proof (cases r1)
    case (Inl e)
    with Cons.prems first have "r = Inl e" "tr' = tr1" by (simp_all add: andThen_def)
    with evs q1 q2 have "tr' = tr @ (?D # evs) \<and> \<not> list_ex directoryLevel (?D # evs)
        \<and> q # paths = [q] @ paths
        \<and> filter isHandleFileDispatch (?D # evs) = handleFileDispatches options [q]
        \<and> (r = Inr () \<longrightarrow> paths = [])"
      by (simp add: handleFileDispatches_def)
    then show ?thesis by blast
  next
    case (Inr u)
    with Cons.prems first
    have "forEach (\<lambda>q. handleCommand depth api repomod (DirectoryCommand (HandleFileCommand q options)))
            paths (f1, tr1) = Some (r, (f', tr'))"
      by (simp add: andThen_def)
    from Cons.IH [OF this] obtain mid "done" later where
      ih: "tr' = tr1 @ mid" "\<not> list_ex directoryLevel mid" "paths = done @ later"
        "filter isHandleFileDispatch mid = handleFileDispatches options done"
        "r = Inr () \<longrightarrow> later = []"
      by blast
    with evs q1 q2 have "tr' = tr @ ((?D # evs) @ mid)
        \<and> \<not> list_ex directoryLevel ((?D # evs) @ mid)
        \<and> q # paths = (q # done) @ later
        \<and> filter isHandleFileDispatch ((?D # evs) @ mid) = handleFileDispatches options (q # done)
        \<and> (r = Inr () \<longrightarrow> later = [])"
      by (simp add: handleFileDispatches_def)
    then show ?thesis by blast
  qed
qed

lemma handleDirectory_unfold:
  assumes "includePatterns repomod = Some patterns"
  shows "handleCommand (Suc depth) api repomod
           (DirectoryCommand (HandleDirectoryCommand p options)) (f, tr) =
     (let excluded = (case excludePatterns repomod of None \<Rightarrow> [] | Some ex \<Rightarrow> ex);
          globbed = ffs_getFilePaths (facadeFileSystem api) p patterns excluded f;
          tr1 = tr @ [Dispatched (DirectoryCommand (HandleDirectoryCommand p options)),
                      GetFilePaths p patterns excluded (fst globbed)]
      in case fst globbed of
           Inl e \<Rightarrow> Some (Inl e, (snd globbed, tr1))
         | Inr paths \<Rightarrow>
             (case forEach (\<lambda>q. handleCommand depth api repomod
                                   (DirectoryCommand (HandleFileCommand q options)))
                     paths (snd globbed, tr1) of
                None \<Rightarrow> None
              | Some (Inl e, st) \<Rightarrow> Some (Inl e, st)
              | Some (Inr u, st) \<Rightarrow>
                  (let upserted = ffs_upsertFacadeDirectory (facadeFileSystem api) p (fst st);
                       tr3 = snd st @ [UpsertFacadeDirectory p (fst upserted)]
                   in case fst upserted of
                        Inl e \<Rightarrow> Some (Inl e, (snd upserted, tr3))
                      | Inr None \<Rightarrow> Some (Inr (), (snd upserted, tr3))
                      | Inr (Some entry) \<Rightarrow>
                          directoryHookStep depth api repomod p options (snd upserted, tr3))))"
  using assms
  by (simp add: andThen_def awaited_def noted_def returned_def Let_def directoryHookStep_def
        split: prod.splits sum.splits option.splits)

lemma emits_directoryHookStep: "emits (\<lambda>_. True) (directoryHookStep depth api repomod p options)"
  unfolding directoryHookStep_def
  by (auto intro!: emits_andThen emits_awaited emits_forEach emits_any)

lemma returnsD:
  assumes "returns m"
  shows "\<exists>r st'. m st = Some (r, st')"
proof -
  from assms have "m st \<noteq> None" unfolding returns_def by blast
  then obtain res where "m st = Some res" by blast
  then show ?thesis by (cases res) blast
qed

lemma returns_returned: "returns (returned a)"
  by (simp add: returns_def returned_def)

lemma returns_noted: "returns (noted ev)"
  by (simp add: returns_def noted_def)

lemma returns_awaited: "returns (awaited ev call)"
  by (simp add: returns_def awaited_def split: prod.splits)

lemma returns_andThen:
  assumes "returns m" and "\<And>a. returns (k a)"
  shows "returns (andThen m k)"
  unfolding returns_def
proof
  fix st
  from returnsD [OF assms(1), of st] obtain r st' where m: "m st = Some (r, st')" by blast
  show "andThen m k st \<noteq> None"
  proof (cases r)
    case (Inl e)
    with m show ?thesis by (simp add: andThen_def)
  next
    case (Inr a)
    with m returnsD [OF assms(2), of a st'] show ?thesis by (auto simp: andThen_def)
  qed
qed

lemma returns_forEach:
  assumes "\<And>x. returns (body x)"
  shows "returns (forEach body xs)"
  by (induction xs) (simp_all add: returns_returned returns_andThen assms)

lemma returns_data: "returns (handleCommand (Suc n) api repomod (DataCommand c))"
  by (cases c)
     (auto intro!: returns_andThen returns_awaited returns_noted returns_returned)

lemma returns_file: "returns (handleCommand (Suc (Suc n)) api repomod (FileCommand c))"
  by (auto intro!: returns_andThen returns_awaited returns_noted returns_returned
        split: FileCommand.splits DataCommand.splits)

lemma returns_handleFile:
  "returns (handleCommand (Suc (Suc (Suc n))) api repomod
              (DirectoryCommand (HandleFileCommand q options)))"
  by (auto intro!: returns_andThen returns_awaited returns_noted returns_returned
        returns_forEach split: option.splits FileCommand.splits DataCommand.splits)

text \<open>
  C9. When the repomod declares include patterns, the handling of a
  \<^verbatim>\<open>handleDirectory\<close> command at any depth of four or more goes as follows, from
  every state and for every facade and hooks. It dispatches the command and calls
  \<^verbatim>\<open>getFilePaths\<close> with the patterns; if that is rejected the handling fails with
  the rejection. Otherwise the loop over the matched paths returns or fails (it never
  runs out of depth), having appended events \<open>mid\<close> among which none is of the
  directory level and the \<^verbatim>\<open>handleFile\<close> dispatches are those of the paths \<open>done\<close>,
  a prefix of the matched paths in their order. If the loop failed, the handling fails
  with that error and \<^verbatim>\<open>upsertFacadeDirectory\<close> is not called. If it returned, all the
  matched paths were dispatched, and only then \<^verbatim>\<open>upsertFacadeDirectory\<close> is called on
  the command's path: when it is rejected the handling fails; when it returns null the
  handling returns with nothing after that call in the trace; when it returns an entry
  the handling is the directory hook and its commands, and whatever it then returns has
  the trace described so far as a prefix.
\<close>

theorem handleDirectory_with_patterns:
  assumes pats: "includePatterns repomod = Some patterns"
  shows
    "let excluded = (case excludePatterns repomod of None \<Rightarrow> [] | Some ex \<Rightarrow> ex);
         globbed = ffs_getFilePaths (facadeFileSystem api) p patterns excluded f;
         tr1 = tr @ [Dispatched (DirectoryCommand (HandleDirectoryCommand p options)),
                     GetFilePaths p patterns excluded (fst globbed)];
         handled = handleCommand (Suc (Suc (Suc (Suc n)))) api repomod
                     (DirectoryCommand (HandleDirectoryCommand p options)) (f, tr)
     in case fst globbed of
          Inl e \<Rightarrow> handled = Some (Inl e, (snd globbed, tr1))
        | Inr paths \<Rightarrow>
            (\<exists>r2 f2 mid done later.
               forEach (\<lambda>q. handleCommand (Suc (Suc (Suc n))) api repomod
                               (DirectoryCommand (HandleFileCommand q options)))
                   paths (snd globbed, tr1)
                 = Some (r2, (f2, tr1 @ mid))
             \<and> \<not> list_ex directoryLevel mid
             \<and> paths = done @ later
             \<and> filter isHandleFileDispatch mid = handleFileDispatches options done
             \<and> (case r2 of
                   Inl e \<Rightarrow> handled = Some (Inl e, (f2, tr1 @ mid))
                 | Inr u \<Rightarrow>
                     later = []
                   \<and> (let upserted = ffs_upsertFacadeDirectory (facadeFileSystem api) p f2
                      in case fst upserted of
                           Inl e \<Rightarrow>
                             handled = Some (Inl e,
                               (snd upserted, tr1 @ mid @ [UpsertFacadeDirectory p (Inl e)]))
                         | Inr None \<Rightarrow>
                             handled = Some (Inr (),
                               (snd upserted, tr1 @ mid @ [UpsertFacadeDirectory p (Inr None)]))
                         | Inr (Some entry) \<Rightarrow>
                             handled = directoryHookStep (Suc (Suc (Suc n))) api repomod p options
                               (snd upserted,
                                tr1 @ mid @ [UpsertFacadeDirectory p (Inr (Some entry))])
                           \<and> (\<forall>r f' tr'. handled = Some (r, (f', tr')) \<longrightarrow>
                                 (\<exists>rest. tr' = tr1 @ mid
                                    @ UpsertFacadeDirectory p (Inr (Some entry)) # rest)))))"
proof -
  let ?excluded = "case excludePatterns repomod of None \<Rightarrow> [] | Some ex \<Rightarrow> ex"
  let ?globbed = "ffs_getFilePaths (facadeFileSystem api) p patterns ?excluded f"
  let ?tr1 = "tr @ [Dispatched (DirectoryCommand (HandleDirectoryCommand p options)),
                    GetFilePaths p patterns ?excluded (fst ?globbed)]"
  let ?loop = "forEach (\<lambda>q. handleCommand (Suc (Suc (Suc n))) api repomod
                               (DirectoryCommand (HandleFileCommand q options)))"
  let ?HC = "handleCommand (Suc (Suc (Suc (Suc n)))) api repomod
               (DirectoryCommand (HandleDirectoryCommand p options)) (f, tr)"
  note unfolded = handleDirectory_unfold [OF pats, of "Suc (Suc (Suc n))" api p options f tr,
      unfolded Let_def]
  show ?thesis
  proof (cases "fst ?globbed")
    case (Inl e)
    with unfolded show ?thesis by simp
  next
    case (Inr paths)
    have "returns (?loop paths)" by (intro returns_forEach returns_handleFile)
    from returnsD [OF this, of "(snd ?globbed, ?tr1)"]
    obtain r2 f2 tr2 where loop: "?loop paths (snd ?globbed, ?tr1) = Some (r2, (f2, tr2))"
      by auto
    from forEach_handleFile_trace [OF loop]
    obtain mid "done" later where
      tr: "tr2 = ?tr1 @ mid" "\<not> list_ex directoryLevel mid" "paths = done @ later"
        "filter isHandleFileDispatch mid = handleFileDispatches options done"
        "r2 = Inr () \<longrightarrow> later = []"
      by blast
    let ?upserted = "ffs_upsertFacadeDirectory (facadeFileSystem api) p f2"
    have last: "case r2 of
        Inl e \<Rightarrow> ?HC = Some (Inl e, (f2, ?tr1 @ mid))
      | Inr u \<Rightarrow> later = []
          \<and> (case fst ?upserted of
                Inl e \<Rightarrow> ?HC = Some (Inl e, (snd ?upserted, ?tr1 @ mid @ [UpsertFacadeDirectory p (Inl e)]))
              | Inr None \<Rightarrow>
                  ?HC = Some (Inr (), (snd ?upserted, ?tr1 @ mid @ [UpsertFacadeDirectory p (Inr None)]))
              | Inr (Some entry) \<Rightarrow>
                  ?HC = directoryHookStep (Suc (Suc (Suc n))) api repomod p options
                          (snd ?upserted, ?tr1 @ mid @ [UpsertFacadeDirectory p (Inr (Some entry))])
                \<and> (\<forall>r f' tr'. ?HC = Some (r, (f', tr')) \<longrightarrow>
                      (\<exists>rest. tr' = ?tr1 @ mid @ UpsertFacadeDirectory p (Inr (Some entry)) # rest)))"
    proof (cases r2)
      case (Inl e)
      with unfolded Inr loop tr(1) show ?thesis by simp
    next
      case r2: (Inr u)
      with tr(5) have later: "later = []" by simp
      show ?thesis
      proof (cases "fst ?upserted")
        case (Inl e)
        with unfolded Inr loop tr(1) r2 later show ?thesis by simp
      next
        case upserted: (Inr entry)
        show ?thesis
        proof (cases entry)
          case None
          with unfolded Inr loop tr(1) r2 later upserted show ?thesis by simp
        next
          case (Some facadeEntry)
          with unfolded Inr loop tr(1) r2 upserted
          have eq: "?HC = directoryHookStep (Suc (Suc (Suc n))) api repomod p options
                          (snd ?upserted, ?tr1 @ mid @ [UpsertFacadeDirectory p (Inr (Some facadeEntry))])"
            by simp
          have "\<exists>rest. tr' = ?tr1 @ mid @ UpsertFacadeDirectory p (Inr (Some facadeEntry)) # rest"
            if "?HC = Some (r, (f', tr'))" for r f' tr'
            using emitsD [OF emits_directoryHookStep that [unfolded eq]] by auto
          with eq r2 later upserted Some show ?thesis by simp
        qed
      qed
    qed
    show ?thesis
      unfolding Let_def Inr sum.case
      apply (rule exI [of _ r2], rule exI [of _ f2], rule exI [of _ mid],
          rule exI [of _ "done"], rule exI [of _ later])
      using loop tr(1-4) last unfolding Inr by simp
  qed
qed


lemmas interpreter_defs =
  exampleApi_def exampleRepomod_def buildApi_def unifiedFacade_def defaultHandleDirectory_def
  defaultHandleFile_def defaultHandleData_def returned_def andThen_def noted_def awaited_def

lemma example_run:
  "map_option (\<lambda>res. (fst res, snd (snd res)))
     (handleCommand (Suc (Suc (Suc (Suc 0)))) exampleApi exampleRepomod
        (DirectoryCommand (HandleDirectoryCommand ''/e'' Map.empty)) (exampleMatches, []))
   = Some (Inr (), exampleTrace)"
  by (simp add: exampleTrace_def exampleMatches_def exampleFileSystem_def interpreter_defs
        method_defs)

lemma example_glob:
  "fst (ffs_getFilePaths (facadeFileSystem exampleApi) ''/e'' [''**/*.html''] [] exampleMatches)
     = Inr [''/d/a'', ''/d/b'']"
  by (simp add: exampleMatches_def exampleFileSystem_def interpreter_defs method_defs)

theorem handleDirectory_with_patterns_witness:
  "includePatterns exampleRepomod = Some [''**/*.html'']
   \<and> map_option (\<lambda>res. (fst res, snd (snd res)))
         (handleCommand (Suc (Suc (Suc (Suc 0)))) exampleApi exampleRepomod
            (DirectoryCommand (HandleDirectoryCommand ''/e'' Map.empty)) (exampleMatches, []))
       = Some (Inr (), exampleTrace)
   \<and> (\<exists>mid entry rest.
          exampleTrace =
            [Dispatched (DirectoryCommand (HandleDirectoryCommand ''/e'' Map.empty)),
             GetFilePaths ''/e'' [''**/*.html''] [] (Inr [''/d/a'', ''/d/b''])]
            @ mid @ UpsertFacadeDirectory ''/e'' entry # rest
        \<and> \<not> list_ex directoryLevel mid
        \<and> filter isHandleFileDispatch mid = handleFileDispatches Map.empty [''/d/a'', ''/d/b'']
        \<and> (entry = Inr None \<longrightarrow> rest = []))"
proof -
  have h1: "includePatterns exampleRepomod = Some [''**/*.html'']" by (simp add: exampleRepomod_def)
  have ex: "excludePatterns exampleRepomod = None" by (simp add: exampleRepomod_def)
  from example_run obtain f' where
    run: "handleCommand (Suc (Suc (Suc (Suc 0)))) exampleApi exampleRepomod
        (DirectoryCommand (HandleDirectoryCommand ''/e'' Map.empty)) (exampleMatches, [])
        = Some (Inr (), (f', exampleTrace))"
    by auto
  from handleDirectory_with_patterns [OF h1, of exampleApi "''/e''" exampleMatches "[]" Map.empty 0]
  have "\<exists>mid entry rest.
          exampleTrace =
            [Dispatched (DirectoryCommand (HandleDirectoryCommand ''/e'' Map.empty)),
             GetFilePaths ''/e'' [''**/*.html''] [] (Inr [''/d/a'', ''/d/b''])]
            @ mid @ UpsertFacadeDirectory ''/e'' entry # rest
        \<and> \<not> list_ex directoryLevel mid
        \<and> filter isHandleFileDispatch mid = handleFileDispatches Map.empty [''/d/a'', ''/d/b'']
        \<and> (entry = Inr None \<longrightarrow> rest = [])"
    unfolding Let_def ex option.case example_glob sum.case run
    apply (elim exE conjE)
    subgoal for r2 f2 mid done' later
      apply (cases r2)
       apply (auto simp del: handleCommand.simps forEach.simps)[1]
      apply (cases "fst (ffs_upsertFacadeDirectory (facadeFileSystem exampleApi) ''/e'' f2)")
       apply (auto simp del: handleCommand.simps forEach.simps)[1]
      subgoal for u entry
        apply (cases entry)
         apply (rule exI [of _ mid], rule exI [of _ "Inr None"], rule exI [of _ "[]"])
         apply (auto simp del: handleCommand.simps forEach.simps)[1]
        apply (rule exI [of _ mid], rule exI [of _ "Inr entry"])
        apply (auto simp del: handleCommand.simps forEach.simps)[1]
        done
      done
    done
  with h1 example_run show ?thesis by (simp only: simp_thms)
qed

end
